theory Spec2Isabelle
  imports Main
begin

section \<open>Configuration data of the TVL backend\<close>

text \<open>
  The types below follow the objects that \<^verbatim>\<open>PremintedModule.ts\<close> reads. A
  \<^verbatim>\<open>UnixTime\<close> is read only through \<^verbatim>\<open>toNumber()\<close>, so a timestamp is an
  integer. An amount entry carries a \<^verbatim>\<open>type\<close> tag; only the tag
  \<^verbatim>\<open>'preminted'\<close> is selected by the module. The fields \<^verbatim>\<open>chain\<close>,
  \<^verbatim>\<open>type\<close> and \<^verbatim>\<open>config\<close> carry a prefix here because the plain names are
  taken.
\<close>

datatype amountType = TotalSupply | CirculatingSupply | Escrow | Preminted

record amountEntry =
  amt_type :: amountType
  amt_chain :: string
  address :: string
  project :: string
  sinceTimestamp :: int
  untilTimestamp :: "int option"

record chainConfig =
  providerUrl :: string
  providerCallsPerMinute :: nat
  multicallConfig :: "string list"

record chainTvlConfig =
  cfg_chain :: string
  cfg_config :: "chainConfig option"

record tvlConfig =
  tvl_chains :: "chainTvlConfig list"
  tvl_amounts :: "amountEntry list"
  maxTimestampsToAggregateAtOnce :: nat

text \<open>
  Indexers of other modules reach this one as object references: the per-chain
  \<^verbatim>\<open>BlockTimestampIndexer\<close> and the shared \<^verbatim>\<open>DescendantIndexer\<close> for prices.
  A reference is an opaque identity.
\<close>

datatype blockTimestampIndexer = BlockTimestampIndexer nat

datatype descendantIndexer = DescendantIndexer nat

datatype priceConfig = PriceConfig string

text \<open>
  The RPC client obtained from \<^verbatim>\<open>peripherals.getClient\<close> is determined by the three
  options passed to it; the amount service wraps that client and the chain's
  multicall configuration.
\<close>

record rpcClient =
  url :: string
  callsPerMinute :: nat
  rpc_chain :: string

record amountService =
  svc_rpcClient :: rpcClient
  svc_multicall :: "string list"

text \<open>
  The options given to \<^verbatim>\<open>new PremintedIndexer\<close> (lines 104--114). No
  \<^verbatim>\<open>maxHeight\<close> is passed, so that option is absent (\<open>None\<close>). The service
  handles (logger, indexer service, sync optimizer, database, circulating supply
  service) are the same objects for every indexer and are left out.
\<close>

record premintedIndexer =
  pi_parents :: "blockTimestampIndexer list"
  configuration :: amountEntry
  pi_minHeight :: int
  pi_maxHeight :: "int option"
  pi_amountService :: amountService

datatype parentIndexer = PriceParent descendantIndexer | DataParent premintedIndexer

text \<open>The options given to \<^verbatim>\<open>new ValueIndexer\<close> (lines 118--132).\<close>

record valueIndexer =
  priceConfigs :: "priceConfig list"
  amountConfigs :: "amountEntry list"
  vi_project :: string
  dataSource :: string
  vi_parents :: "parentIndexer list"
  vi_minHeight :: int
  vi_maxHeight :: "int option"
  maxTimestampsToProcessAtOnce :: nat

datatype error = AssertionError string

section \<open>createIndexers\<close>

text \<open>Lines 73--75: the entries of the chain that are tagged \<^verbatim>\<open>'preminted'\<close>.\<close>

definition premintedTokens :: "tvlConfig \<Rightarrow> string \<Rightarrow> amountEntry list" where
  "premintedTokens config chain =
     filter (\<lambda>a. amt_type a = Preminted) (filter (\<lambda>a. amt_chain a = chain) (tvl_amounts config))"

text \<open>
  Lines 96--97: \<^verbatim>\<open>blockTimestampIndexers && blockTimestampIndexers.get(chain)\<close>.
  The map itself is optional.
\<close>

definition lookupBlockTimestampIndexer ::
  "(string \<rightharpoonup> blockTimestampIndexer) option \<Rightarrow> string \<Rightarrow> blockTimestampIndexer option" where
  "lookupBlockTimestampIndexer blockTimestampIndexers chain =
     (case blockTimestampIndexers of None \<Rightarrow> None | Some m \<Rightarrow> m chain)"

definition newPremintedIndexer ::
  "blockTimestampIndexer \<Rightarrow> amountService \<Rightarrow> amountEntry \<Rightarrow> premintedIndexer" where
  "newPremintedIndexer blockTimestampIndexer svc preminted =
     \<lparr> pi_parents = [blockTimestampIndexer],
       configuration = preminted,
       pi_minHeight = sinceTimestamp preminted,
       pi_maxHeight = None,
       pi_amountService = svc \<rparr>"

text \<open>
  \<^verbatim>\<open>configMapping.getPriceConfigFromAmountConfig\<close> belongs to the package
  \<^verbatim>\<open>@l2beat/config\<close>; the module receives it as an argument and it is an argument
  here, a function from the entry to its price configuration.
\<close>

definition newValueIndexer ::
  "tvlConfig \<Rightarrow> (amountEntry \<Rightarrow> priceConfig) \<Rightarrow> descendantIndexer \<Rightarrow> string \<Rightarrow>
   premintedIndexer \<Rightarrow> amountEntry \<Rightarrow> valueIndexer" where
  "newValueIndexer config getPriceConfigFromAmountConfig descendantPriceIndexer chain indexer preminted =
     \<lparr> priceConfigs = [getPriceConfigFromAmountConfig preminted],
       amountConfigs = [preminted],
       vi_project = project preminted,
       dataSource = chain @ ''_preminted_'' @ address preminted,
       vi_parents = [PriceParent descendantPriceIndexer, DataParent indexer],
       vi_minHeight = sinceTimestamp preminted,
       vi_maxHeight = untilTimestamp preminted,
       maxTimestampsToProcessAtOnce = maxTimestampsToAggregateAtOnce config \<rparr>"

text \<open>
  Lines 103--135: the inner loop pushes one data indexer and one value indexer per
  preminted entry onto the two arrays.
\<close>

fun pushIndexers ::
  "tvlConfig \<Rightarrow> (amountEntry \<Rightarrow> priceConfig) \<Rightarrow> descendantIndexer \<Rightarrow> string \<Rightarrow>
   blockTimestampIndexer \<Rightarrow> amountService \<Rightarrow> amountEntry list \<Rightarrow>
   premintedIndexer list \<times> valueIndexer list \<Rightarrow> premintedIndexer list \<times> valueIndexer list" where
  "pushIndexers config gp dpi chain bti svc [] acc = acc"
| "pushIndexers config gp dpi chain bti svc (preminted # rest) (dataIndexers, valueIndexers) =
     (let indexer = newPremintedIndexer bti svc preminted;
          valueIndexer = newValueIndexer config gp dpi chain indexer preminted
      in pushIndexers config gp dpi chain bti svc rest
           (dataIndexers @ [indexer], valueIndexers @ [valueIndexer]))"

definition assertMessage :: string where
  "assertMessage = ''blockTimestampIndexer should be defined for enabled chain''"

text \<open>
  Lines 67--136: the loop over \<^verbatim>\<open>config.chains\<close>. A chain without a config and a chain
  without preminted entries are skipped (\<^verbatim>\<open>continue\<close>); a chain with entries but
  without a block timestamp indexer fails the assertion, which ends the whole call.
\<close>

fun createIndexersLoop ::
  "tvlConfig \<Rightarrow> (amountEntry \<Rightarrow> priceConfig) \<Rightarrow> descendantIndexer \<Rightarrow>
   (string \<rightharpoonup> blockTimestampIndexer) option \<Rightarrow> chainTvlConfig list \<Rightarrow>
   premintedIndexer list \<times> valueIndexer list \<Rightarrow>
   error + premintedIndexer list \<times> valueIndexer list" where
  "createIndexersLoop config gp dpi btis [] acc = Inr acc"
| "createIndexersLoop config gp dpi btis (chainConfig # rest) acc =
     (case cfg_config chainConfig of
        None \<Rightarrow> createIndexersLoop config gp dpi btis rest acc
      | Some c \<Rightarrow>
          (let chain = cfg_chain chainConfig;
               toks = premintedTokens config chain
           in if length toks = 0 then createIndexersLoop config gp dpi btis rest acc
              else
                (let client = \<lparr> url = providerUrl c, callsPerMinute = providerCallsPerMinute c,
                                 rpc_chain = chain \<rparr>;
                     svc = \<lparr> svc_rpcClient = client, svc_multicall = multicallConfig c \<rparr>
                 in case lookupBlockTimestampIndexer btis chain of
                      None \<Rightarrow> Inl (AssertionError assertMessage)
                    | Some bti \<Rightarrow>
                        createIndexersLoop config gp dpi btis rest
                          (pushIndexers config gp dpi chain bti svc toks acc))))"

definition createIndexers ::
  "tvlConfig \<Rightarrow> (amountEntry \<Rightarrow> priceConfig) \<Rightarrow> descendantIndexer \<Rightarrow>
   (string \<rightharpoonup> blockTimestampIndexer) option \<Rightarrow>
   error + premintedIndexer list \<times> valueIndexer list" where
  "createIndexers config getPriceConfigFromAmountConfig descendantPriceIndexer blockTimestampIndexers =
     createIndexersLoop config getPriceConfigFromAmountConfig descendantPriceIndexer
       blockTimestampIndexers (tvl_chains config) ([], [])"

section \<open>initPremintedModule\<close>

text \<open>
  The module returned by \<^verbatim>\<open>initPremintedModule\<close> is an object whose only member is
  the closure \<^verbatim>\<open>start\<close>; the closure captures the two arrays, so the module is
  the pair of arrays and \<open>start\<close> is a function on it.
\<close>

record premintedModule =
  dataIndexers :: "premintedIndexer list"
  valueIndexers :: "valueIndexer list"

definition initPremintedModule ::
  "tvlConfig \<Rightarrow> (amountEntry \<Rightarrow> priceConfig) \<Rightarrow> descendantIndexer \<Rightarrow>
   (string \<rightharpoonup> blockTimestampIndexer) option \<Rightarrow> error + premintedModule option" where
  "initPremintedModule config getPriceConfigFromAmountConfig descendantPriceIndexer blockTimestampIndexers =
     (case createIndexers config getPriceConfigFromAmountConfig descendantPriceIndexer
             blockTimestampIndexers of
        Inl e \<Rightarrow> Inl e
      | Inr (ds, vs) \<Rightarrow>
          if length ds = 0 then Inr None
          else Inr (Some \<lparr> dataIndexers = ds, valueIndexers = vs \<rparr>))"

text \<open>
  Lines 38--46. \<^verbatim>\<open>start\<close> awaits the \<^verbatim>\<open>start()\<close> of each data indexer in array
  order and then of each value indexer. The arrays hold objects: two indexers with equal
  options are still two objects, each with its own \<^verbatim>\<open>start()\<close>. An object is
  referred to by its array and its position in it.
\<close>

datatype indexerRef = DataIndexerAt nat | ValueIndexerAt nat

text \<open>
  The method \<^verbatim>\<open>start()\<close> of an indexer is not part of this file: whether the
  promise of an object resolves is the parameter \<open>resolves\<close>. A rejected promise ends
  \<^verbatim>\<open>start\<close> at that point. The effect of \<^verbatim>\<open>start\<close> is the sequence of calls
  begun and completed, and whether the whole operation completed.
\<close>

datatype startEvent = StartBegins indexerRef | StartCompletes indexerRef

fun startEach :: "(indexerRef \<Rightarrow> bool) \<Rightarrow> indexerRef list \<Rightarrow> startEvent list \<times> bool" where
  "startEach resolves [] = ([], True)"
| "startEach resolves (i # rest) =
     (if resolves i
      then (case startEach resolves rest of
              (tr, completed) \<Rightarrow> (StartBegins i # StartCompletes i # tr, completed))
      else ([StartBegins i], False))"

definition start :: "premintedModule \<Rightarrow> (indexerRef \<Rightarrow> bool) \<Rightarrow> startEvent list \<times> bool" where
  "start m resolves =
     (case startEach resolves (map DataIndexerAt [0 ..< length (dataIndexers m)]) of
        (tr1, completed1) \<Rightarrow>
          if \<not> completed1 then (tr1, False)
          else (case startEach resolves (map ValueIndexerAt [0 ..< length (valueIndexers m)]) of
                  (tr2, completed2) \<Rightarrow> (tr1 @ tr2, completed2)))"

section \<open>Predicates on the result of createIndexers\<close>

text \<open>
  The entries for which the loop body at lines 103--135 runs when the outer loop is at
  the chain entry \<open>cc\<close>: none when the entry has no config, the preminted entries of
  its chain otherwise.
\<close>

definition chainPositions :: "tvlConfig \<Rightarrow> chainTvlConfig \<Rightarrow> amountEntry list" where
  "chainPositions config cc =
     (case cfg_config cc of None \<Rightarrow> [] | Some c \<Rightarrow> premintedTokens config (cfg_chain cc))"

text \<open>
  The entries that the two loops visit, in order: the preminted entries on enabled chains,
  once for each chain entry that names their chain.
\<close>

definition positions :: "tvlConfig \<Rightarrow> chainTvlConfig list \<Rightarrow> amountEntry list" where
  "positions config cs = concat (map (chainPositions config) cs)"

text \<open>The amount service built at lines 81--94 for a chain entry.\<close>

definition chainService :: "chainTvlConfig \<Rightarrow> amountService" where
  "chainService cc =
     (case cfg_config cc of
        None \<Rightarrow> \<lparr> svc_rpcClient = \<lparr> url = [], callsPerMinute = 0, rpc_chain = cfg_chain cc \<rparr>,
                   svc_multicall = [] \<rparr>
      | Some c \<Rightarrow>
          \<lparr> svc_rpcClient = \<lparr> url = providerUrl c, callsPerMinute = providerCallsPerMinute c,
                               rpc_chain = cfg_chain cc \<rparr>,
            svc_multicall = multicallConfig c \<rparr>)"

text \<open>
  Every chain entry at which the assertion of lines 98--101 is evaluated has a
  Block-Timestamp Indexer: every enabled chain with a preminted entry is a key of the map.
\<close>

definition btisDefined :: "tvlConfig \<Rightarrow> (string \<rightharpoonup> blockTimestampIndexer) option \<Rightarrow> bool" where
  "btisDefined config btis =
     list_all (\<lambda>cc. chainPositions config cc = [] \<or>
                    lookupBlockTimestampIndexer btis (cfg_chain cc) \<noteq> None) (tvl_chains config)"

text \<open>
  A data indexer and the value indexer pushed with it, as the inner loop builds them
  for some chain entry of the configuration.
\<close>

definition builtPair ::
  "tvlConfig \<Rightarrow> (amountEntry \<Rightarrow> priceConfig) \<Rightarrow> descendantIndexer \<Rightarrow>
   (string \<rightharpoonup> blockTimestampIndexer) option \<Rightarrow> premintedIndexer \<Rightarrow> valueIndexer \<Rightarrow> bool" where
  "builtPair config gp dpi btis d v =
     (\<exists>bti svc. lookupBlockTimestampIndexer btis (amt_chain (configuration d)) = Some bti \<and>
        amt_type (configuration d) = Preminted \<and>
        d = newPremintedIndexer bti svc (configuration d) \<and>
        v = newValueIndexer config gp dpi (amt_chain (configuration d)) d (configuration d))"

text \<open>
  No preminted entry is on an enabled chain: no entry tagged \<^verbatim>\<open>'preminted'\<close> names
  the chain of a chain entry that has a config.
\<close>

definition noPremintedMatch :: "tvlConfig \<Rightarrow> bool" where
  "noPremintedMatch config \<longleftrightarrow>
     (\<forall>a \<in> set (tvl_amounts config). \<forall>cc \<in> set (tvl_chains config).
        amt_type a = Preminted \<and> cfg_config cc \<noteq> None \<longrightarrow> amt_chain a \<noteq> cfg_chain cc)"

section \<open>The processing cycles of the indexers\<close>

text \<open>
  The classes \<^verbatim>\<open>PremintedIndexer\<close>, \<^verbatim>\<open>ValueIndexer\<close>,
  \<^verbatim>\<open>BlockTimestampIndexer\<close>, \<^verbatim>\<open>DescendantIndexer\<close> and \<^verbatim>\<open>RpcClient\<close> are
  imported by the module; their bodies are not among the source files. Their
  behaviour is taken from sections 3, 4 and 8 of the specification. A timestamp
  boundary is an integer (the hour number of the scenarios in section 8).
\<close>

text \<open>
  Modelled from the spec: the progress cursor and the records of a Data Indexer
  (class \<^verbatim>\<open>PremintedIndexer\<close>, missing). A Raw Amount Record is keyed by the
  timestamp; writing the same key again overwrites.
\<close>

record dataState =
  d_cursor :: int
  rawAmounts :: "int \<rightharpoonup> int"

text \<open>
  Modelled from the spec: the progress cursor and the records of a Value Indexer
  (class \<^verbatim>\<open>ValueIndexer\<close>, missing).
\<close>

record valueState =
  v_cursor :: int
  pricedValues :: "int \<rightharpoonup> int"

text \<open>
  Modelled from the spec: the state of the Block-Timestamp Indexer (class
  \<^verbatim>\<open>BlockTimestampIndexer\<close>, missing): its cursor and the persisted mapping from
  timestamp to block height.
\<close>

record blockTimestampState =
  bt_cursor :: int
  blockOf :: "int \<rightharpoonup> nat"

text \<open>
  Modelled from the spec: the result of the Amount Service (class
  \<^verbatim>\<open>AmountService\<close>, missing), section 4.3: a quantity, the expected condition
  \<^verbatim>\<open>NotYetAvailable\<close>, or any other failure.
\<close>

datatype amountResult = Amount int | NotYetAvailable | AmountFailure

text \<open>
  Modelled from the spec: how a cycle of an indexer ends (sections 4.5, 4.7 and 7):
  cleanly, with a reported failure of the Amount Service, or with the consistency fault
  \<^verbatim>\<open>MissingUpstreamRecord\<close>.
\<close>

datatype cycleOutcome = CycleDone | CycleFailed | MissingUpstreamRecord

text \<open>
  Modelled from the spec: an optional maximum height caps a bound (section 3, Progress
  Cursor: "an optional maximum height (stops advancing past this point)").
\<close>

definition capAt :: "int \<Rightarrow> int option \<Rightarrow> int" where
  "capAt b m = (case m of None \<Rightarrow> b | Some h \<Rightarrow> min b h)"

text \<open>
  Modelled from the spec: the timestamps of one cycle (section 4.5): "strictly after its
  own cursor up to that bound, in increasing order, one batch at a time sized by the Sync
  Optimizer's recommendation". The width is the recommendation of the Sync Optimizer
  (missing).
\<close>

definition batch :: "int \<Rightarrow> int \<Rightarrow> nat \<Rightarrow> int list" where
  "batch cursor bound width = [cursor + 1 .. min bound (cursor + int width)]"

text \<open>
  Modelled from the spec: the safe bound of a Data Indexer (section 4.5): "min(own max
  height, parent Block-Timestamp Indexer's cursor, configuration's end timestamp if
  set)". The own max height and the configuration are those the module passed to the
  constructor.
\<close>

definition dataSafeBound :: "premintedIndexer \<Rightarrow> int \<Rightarrow> int" where
  "dataSafeBound d parentCursor =
     capAt (capAt parentCursor (pi_maxHeight d)) (untilTimestamp (configuration d))"

text \<open>
  Modelled from the spec: the loop of a Data Indexer cycle (section 4.5): "For each
  timestamp: call Amount Service; on success, persist a Raw Amount Record and advance
  cursor to that timestamp; on NotYetAvailable, stop the cycle without error; on any
  other failure, stop the cycle and report the failure without advancing the cursor".
\<close>

fun processData :: "(int \<Rightarrow> amountResult) \<Rightarrow> int list \<Rightarrow> dataState \<Rightarrow> dataState \<times> cycleOutcome" where
  "processData resolveAmount [] s = (s, CycleDone)"
| "processData resolveAmount (t # ts) s =
     (case resolveAmount t of
        Amount q \<Rightarrow>
          processData resolveAmount ts (s\<lparr> rawAmounts := (rawAmounts s)(t \<mapsto> q), d_cursor := t \<rparr>)
      | NotYetAvailable \<Rightarrow> (s, CycleDone)
      | AmountFailure \<Rightarrow> (s, CycleFailed))"

text \<open>
  Modelled from the spec: one cycle of a Data Indexer (section 4.5): it determines the
  safe bound from the parent's cursor as read when the cycle begins, and processes the
  batch of timestamps after its cursor.
\<close>

definition dataCycle ::
  "premintedIndexer \<Rightarrow> (int \<Rightarrow> amountResult) \<Rightarrow> nat \<Rightarrow> int \<Rightarrow> dataState \<Rightarrow> dataState \<times> cycleOutcome" where
  "dataCycle d resolveAmount width parentCursor s =
     processData resolveAmount (batch (d_cursor s) (dataSafeBound d parentCursor) width) s"

text \<open>
  Modelled from the spec: the safe bound of a Value Indexer (section 4.7): "Safe bound =
  min(both parents' cursors, own max height)".
\<close>

definition valueSafeBound :: "valueIndexer \<Rightarrow> int \<Rightarrow> int \<Rightarrow> int" where
  "valueSafeBound v dataCursor priceCursor = capAt (min dataCursor priceCursor) (vi_maxHeight v)"

text \<open>
  Modelled from the spec: the loop of a Value Indexer cycle (section 4.7): "For each
  unprocessed timestamp up to the bound: look up the Raw Amount Record and the applicable
  Price/Rate Point; if either is missing ... fail loudly (MissingUpstreamRecord), do not
  silently skip. Otherwise compute value = quantity times conversion factor, persist the
  Priced Value Record, advance cursor."
\<close>

fun processValue ::
  "(int \<rightharpoonup> int) \<Rightarrow> (int \<rightharpoonup> int) \<Rightarrow> int list \<Rightarrow> valueState \<Rightarrow> valueState \<times> cycleOutcome" where
  "processValue raw price [] s = (s, CycleDone)"
| "processValue raw price (t # ts) s =
     (case raw t of
        None \<Rightarrow> (s, MissingUpstreamRecord)
      | Some q \<Rightarrow>
          (case price t of
             None \<Rightarrow> (s, MissingUpstreamRecord)
           | Some f \<Rightarrow>
               processValue raw price ts
                 (s\<lparr> pricedValues := (pricedValues s)(t \<mapsto> q * f), v_cursor := t \<rparr>)))"

text \<open>
  Modelled from the spec: one cycle of a Value Indexer (section 4.7): "For each unprocessed
  timestamp up to the bound", with the parents' cursors as read when the cycle begins.
\<close>

definition valueCycle ::
  "valueIndexer \<Rightarrow> (int \<rightharpoonup> int) \<Rightarrow> (int \<rightharpoonup> int) \<Rightarrow> int \<Rightarrow> int \<Rightarrow> valueState \<Rightarrow>
   valueState \<times> cycleOutcome" where
  "valueCycle v raw price dataCursor priceCursor s =
     processValue raw price
       [v_cursor s + 1 .. valueSafeBound v dataCursor priceCursor] s"

text \<open>
  Modelled from the spec: a cycle of the Descendant/Price Indexer (class
  \<^verbatim>\<open>DescendantIndexer\<close>, missing), section 4.6: the "same
  cursor-advance-only-within-safe-bound discipline" as the Data Indexer, where the unit of
  work is whether a price point is available for the timestamp.
\<close>

fun processPrice :: "(int \<rightharpoonup> int) \<Rightarrow> int list \<Rightarrow> int \<Rightarrow> int" where
  "processPrice price [] c = c"
| "processPrice price (t # ts) c =
     (case price t of None \<Rightarrow> c | Some f \<Rightarrow> processPrice price ts t)"

text \<open>
  Modelled from the spec: one cycle of the Descendant/Price Indexer (section 4.6), bounded
  by the upstream availability.
\<close>

definition priceCycle :: "(int \<rightharpoonup> int) \<Rightarrow> int \<Rightarrow> nat \<Rightarrow> int \<Rightarrow> int" where
  "priceCycle price upstream width c = processPrice price (batch c upstream width) c"

text \<open>
  Modelled from the spec: a step of the Block-Timestamp Indexer (section 4.4): the cursor
  advances "one timestamp boundary at a time"; a step resolves the block of the target
  timestamp, persists the mapping and advances; when the cursor has reached "now minus a
  safety margin" the indexer idles. A resolution that fails leaves the state as it is.
\<close>

definition blockTimestampStep ::
  "(int \<Rightarrow> nat option) \<Rightarrow> int \<Rightarrow> blockTimestampState \<Rightarrow> blockTimestampState" where
  "blockTimestampStep resolveBlock safeNow s =
     (if bt_cursor s < safeNow
      then (case resolveBlock (bt_cursor s + 1) of
              None \<Rightarrow> s
            | Some b \<Rightarrow> s\<lparr> blockOf := (blockOf s)(bt_cursor s + 1 \<mapsto> b),
                            bt_cursor := bt_cursor s + 1 \<rparr>)
      else s)"

text \<open>
  Modelled from the spec: the Amount Service (section 4.3): it "resolves the timestamp to
  a block via the Block-Timestamp Indexer's current mapping; if no block is yet known for
  that timestamp the call fails with NotYetAvailable". The read at the block is the
  provider's answer, \<open>None\<close> when the provider fails.
\<close>

definition resolveAmount :: "(nat \<Rightarrow> int option) \<Rightarrow> blockTimestampState \<Rightarrow> int \<Rightarrow> amountResult" where
  "resolveAmount readAt bts t =
     (case blockOf bts t of
        None \<Rightarrow> NotYetAvailable
      | Some b \<Rightarrow> (case readAt b of None \<Rightarrow> AmountFailure | Some q \<Rightarrow> Amount q))"

subsection \<open>The graph of one asset position\<close>

text \<open>
  Modelled from the spec: the mutable state of the four indexers that one asset position
  involves (sections 2 and 3): the Block-Timestamp Indexer of its chain, its Data
  Indexer, the Descendant/Price Indexer with the price points supplied upstream, and its
  Value Indexer.
\<close>

record graphState =
  bts :: blockTimestampState
  dat :: dataState
  priceCursor :: int
  pricePoints :: "int \<rightharpoonup> int"
  val :: valueState

text \<open>
  Modelled from the spec: what can happen next in the graph (section 5): each indexer runs
  its own loop and the loops interleave, so a run is a sequence of cycles of any of the
  four indexers, in any order, and of price points arriving upstream. A cycle reads its
  parents' cursors when it begins. An event carries what the environment decides: the
  block resolver and the safe present for the Block-Timestamp Indexer, the provider's
  reads and the batch width for the Data Indexer, the upstream availability and the batch
  width for the Descendant/Price Indexer.
\<close>

datatype graphEvent =
    BlockTimestampCycle "int \<Rightarrow> nat option" int
  | DataCycle "nat \<Rightarrow> int option" nat
  | PricePointArrives int int
  | PriceCycle int nat
  | ValueCycle

text \<open>
  Modelled from the spec: the effect of one event on the graph (sections 4.4 to 4.7 and 5):
  the cycle of an indexer changes the state of that indexer only; the Amount Service of a
  Data Indexer cycle resolves blocks through the Block-Timestamp Indexer's current mapping.
\<close>

fun graphStep :: "premintedIndexer \<Rightarrow> valueIndexer \<Rightarrow> graphState \<Rightarrow> graphEvent \<Rightarrow> graphState" where
  "graphStep d v s (BlockTimestampCycle resolveBlock safeNow) =
     s\<lparr> bts := blockTimestampStep resolveBlock safeNow (bts s) \<rparr>"
| "graphStep d v s (DataCycle readAt width) =
     s\<lparr> dat := fst (dataCycle d (resolveAmount readAt (bts s)) width (bt_cursor (bts s)) (dat s)) \<rparr>"
| "graphStep d v s (PricePointArrives t f) =
     s\<lparr> pricePoints := (pricePoints s)(t \<mapsto> f) \<rparr>"
| "graphStep d v s (PriceCycle upstream width) =
     s\<lparr> priceCursor := priceCycle (pricePoints s) upstream width (priceCursor s) \<rparr>"
| "graphStep d v s ValueCycle =
     s\<lparr> val := fst (valueCycle v (rawAmounts (dat s)) (pricePoints s)
                        (d_cursor (dat s)) (priceCursor s) (val s)) \<rparr>"

text \<open>
  Modelled from the spec: a run of the graph (section 5): the events take effect one after
  the other.
\<close>

definition run :: "premintedIndexer \<Rightarrow> valueIndexer \<Rightarrow> graphEvent list \<Rightarrow> graphState \<Rightarrow> graphState" where
  "run d v evs s = foldl (graphStep d v) s evs"

text \<open>
  Modelled from the spec: the dependency bound (section 8): "cursor(V) <= min(cursor(D),
  cursor(P))" for the Value Indexer of the position.
\<close>

definition dependencyBound :: "graphState \<Rightarrow> bool" where
  "dependencyBound s \<longleftrightarrow> v_cursor (val s) \<le> min (d_cursor (dat s)) (priceCursor s)"

section \<open>The retry policy of the Rate-Limited Chain Client\<close>

text \<open>
  Modelled from the spec: an answer of the provider to one call (section 4.1): a result,
  a network-level failure (timeout, connection reset, 5xx-equivalent) or a malformed
  response.
\<close>

datatype 'r callOutcome = Response 'r | NetworkFailure | MalformedResponse

text \<open>Modelled from the spec: the errors the client surfaces (sections 4.1 and 7).\<close>

datatype clientError = ProviderUnavailable | ProviderProtocolError

text \<open>
  Modelled from the spec: the configured attempt bound and the first backoff delay of the
  client (class \<^verbatim>\<open>RpcClient\<close>, missing).
\<close>

record retryPolicy =
  maxAttempts :: nat
  baseDelay :: nat

text \<open>
  Modelled from the spec: one call through the client (section 4.1): "Network-level
  failures are retried with exponential backoff up to a bounded attempt count; after
  exhaustion the call fails with a ProviderUnavailable error. Malformed responses fail
  immediately with ProviderProtocolError (not retried)". The provider is a function of the
  number of calls it has received; the result comes with the number of calls made to the
  provider and the total time waited between attempts.
\<close>

fun callWithRetry ::
  "(nat \<Rightarrow> 'r callOutcome) \<Rightarrow> nat \<Rightarrow> nat \<Rightarrow> nat \<Rightarrow> (clientError + 'r) \<times> nat \<times> nat" where
  "callWithRetry provider 0 made delay = (Inl ProviderUnavailable, made, 0)"
| "callWithRetry provider (Suc remaining) made delay =
     (case provider made of
        Response r \<Rightarrow> (Inr r, Suc made, 0)
      | MalformedResponse \<Rightarrow> (Inl ProviderProtocolError, Suc made, 0)
      | NetworkFailure \<Rightarrow>
          (if remaining = 0 then (Inl ProviderUnavailable, Suc made, 0)
           else (case callWithRetry provider remaining (Suc made) (2 * delay) of
                   (res, calls, waited) \<Rightarrow> (res, calls, delay + waited))))"

text \<open>
  Modelled from the spec: the contract \<^verbatim>\<open>call(request) -> result\<close> of the client
  (section 4.1) under its configured policy, starting with a provider that has received no
  call.
\<close>

definition call :: "retryPolicy \<Rightarrow> (nat \<Rightarrow> 'r callOutcome) \<Rightarrow> (clientError + 'r) \<times> nat \<times> nat" where
  "call policy provider = callWithRetry provider (maxAttempts policy) 0 (baseDelay policy)"

section \<open>A small configuration\<close>

text \<open>
  One enabled chain with two preminted entries (the first ends at hour 175) and an
  escrow entry that the module ignores, and one chain that is not enabled (it has no
  config) although a preminted entry names it.
\<close>

definition sampleEntry :: amountEntry where
  "sampleEntry = \<lparr> amt_type = Preminted, amt_chain = ''ethereum'', address = ''0xA'',
                    project = ''p'', sinceTimestamp = 100, untilTimestamp = Some 175 \<rparr>"

definition sampleEntry2 :: amountEntry where
  "sampleEntry2 = \<lparr> amt_type = Preminted, amt_chain = ''ethereum'', address = ''0xD'',
                     project = ''p'', sinceTimestamp = 120, untilTimestamp = None \<rparr>"

definition sampleChain :: chainTvlConfig where
  "sampleChain =
     \<lparr> cfg_chain = ''ethereum'',
       cfg_config = Some \<lparr> providerUrl = ''rpc'', providerCallsPerMinute = 60,
                           multicallConfig = [] \<rparr> \<rparr>"

definition sampleConfig :: tvlConfig where
  "sampleConfig =
     \<lparr> tvl_chains = [sampleChain, \<lparr> cfg_chain = ''arbitrum'', cfg_config = None \<rparr>],
       tvl_amounts =
         [sampleEntry,
          \<lparr> amt_type = Escrow, amt_chain = ''ethereum'', address = ''0xB'', project = ''p'',
            sinceTimestamp = 50, untilTimestamp = None \<rparr>,
          \<lparr> amt_type = Preminted, amt_chain = ''arbitrum'', address = ''0xC'', project = ''q'',
            sinceTimestamp = 70, untilTimestamp = None \<rparr>,
          sampleEntry2],
       maxTimestampsToAggregateAtOnce = 5 \<rparr>"

definition samplePrices :: "amountEntry \<Rightarrow> priceConfig" where
  "samplePrices a = PriceConfig (address a)"

definition sampleIndexers :: "(string \<rightharpoonup> blockTimestampIndexer) option" where
  "sampleIndexers = Some [''ethereum'' \<mapsto> BlockTimestampIndexer 1]"

definition sampleData :: premintedIndexer where
  "sampleData =
     \<lparr> pi_parents = [BlockTimestampIndexer 1], configuration = sampleEntry,
       pi_minHeight = 100, pi_maxHeight = None,
       pi_amountService =
         \<lparr> svc_rpcClient = \<lparr> url = ''rpc'', callsPerMinute = 60, rpc_chain = ''ethereum'' \<rparr>,
           svc_multicall = [] \<rparr> \<rparr>"

definition sampleValue :: valueIndexer where
  "sampleValue =
     \<lparr> priceConfigs = [PriceConfig ''0xA''], amountConfigs = [sampleEntry], vi_project = ''p'',
       dataSource = ''ethereum_preminted_0xA'',
       vi_parents = [PriceParent (DescendantIndexer 0), DataParent sampleData],
       vi_minHeight = 100, vi_maxHeight = Some 175, maxTimestampsToProcessAtOnce = 5 \<rparr>"

definition sampleData2 :: premintedIndexer where
  "sampleData2 = sampleData \<lparr> configuration := sampleEntry2, pi_minHeight := 120 \<rparr>"

definition sampleValue2 :: valueIndexer where
  "sampleValue2 =
     \<lparr> priceConfigs = [PriceConfig ''0xD''], amountConfigs = [sampleEntry2], vi_project = ''p'',
       dataSource = ''ethereum_preminted_0xD'',
       vi_parents = [PriceParent (DescendantIndexer 0), DataParent sampleData2],
       vi_minHeight = 120, vi_maxHeight = None, maxTimestampsToProcessAtOnce = 5 \<rparr>"

text \<open>
  A configuration with two enabled chains, one preminted entry on each, and a map that
  registers a different Block-Timestamp Indexer for each chain.
\<close>

definition sampleChainB :: chainTvlConfig where
  "sampleChainB =
     \<lparr> cfg_chain = ''arbitrum'',
       cfg_config = Some \<lparr> providerUrl = ''rpc2'', providerCallsPerMinute = 30,
                           multicallConfig = [] \<rparr> \<rparr>"

definition sampleEntryB :: amountEntry where
  "sampleEntryB = \<lparr> amt_type = Preminted, amt_chain = ''arbitrum'', address = ''0xC'',
                     project = ''q'', sinceTimestamp = 70, untilTimestamp = None \<rparr>"

definition twoChainConfig :: tvlConfig where
  "twoChainConfig =
     \<lparr> tvl_chains = [sampleChain, sampleChainB],
       tvl_amounts = [sampleEntry, sampleEntryB],
       maxTimestampsToAggregateAtOnce = 5 \<rparr>"

definition twoChainIndexers :: "string \<rightharpoonup> blockTimestampIndexer" where
  "twoChainIndexers =
     [''ethereum'' \<mapsto> BlockTimestampIndexer 1, ''arbitrum'' \<mapsto> BlockTimestampIndexer 2]"

definition sampleDataB :: premintedIndexer where
  "sampleDataB =
     \<lparr> pi_parents = [BlockTimestampIndexer 2], configuration = sampleEntryB,
       pi_minHeight = 70, pi_maxHeight = None,
       pi_amountService =
         \<lparr> svc_rpcClient = \<lparr> url = ''rpc2'', callsPerMinute = 30, rpc_chain = ''arbitrum'' \<rparr>,
           svc_multicall = [] \<rparr> \<rparr>"

definition sampleValueB :: valueIndexer where
  "sampleValueB =
     \<lparr> priceConfigs = [PriceConfig ''0xC''], amountConfigs = [sampleEntryB], vi_project = ''q'',
       dataSource = ''arbitrum_preminted_0xC'',
       vi_parents = [PriceParent (DescendantIndexer 0), DataParent sampleDataB],
       vi_minHeight = 70, vi_maxHeight = None, maxTimestampsToProcessAtOnce = 5 \<rparr>"

text \<open>
  States of the graph of the first position. In each the Block-Timestamp Indexer knows a
  block for every timestamp and every timestamp has the price point 2. In
  \<open>sampleGraph\<close> both indexers of the position are at hour 100 with no records and the
  price cursor is at hour 105; in \<open>sampleAtEnd\<close> the Data Indexer has reached the end
  timestamp 175.
\<close>

definition sampleBlocks :: blockTimestampState where
  "sampleBlocks = \<lparr> bt_cursor = 150, blockOf = (\<lambda>t. Some (nat t)) \<rparr>"

definition sampleGraph :: graphState where
  "sampleGraph =
     \<lparr> bts = sampleBlocks,
       dat = \<lparr> d_cursor = 100, rawAmounts = Map.empty \<rparr>,
       priceCursor = 105,
       pricePoints = (\<lambda>t. Some 2),
       val = \<lparr> v_cursor = 100, pricedValues = Map.empty \<rparr> \<rparr>"

definition sampleAtEnd :: graphState where
  "sampleAtEnd =
     \<lparr> bts = \<lparr> bt_cursor = 200, blockOf = (\<lambda>t. Some (nat t)) \<rparr>,
       dat = \<lparr> d_cursor = 175, rawAmounts = Map.empty \<rparr>,
       priceCursor = 180,
       pricePoints = (\<lambda>t. Some 2),
       val = \<lparr> v_cursor = 170, pricedValues = Map.empty \<rparr> \<rparr>"

definition samplePolicy :: retryPolicy where
  "samplePolicy = \<lparr> maxAttempts = 3, baseDelay = 100 \<rparr>"

section \<open>Facts about createIndexers\<close>

lemma premintedTokens_mem:
  "a \<in> set (premintedTokens config chain) \<longleftrightarrow>
     a \<in> set (tvl_amounts config) \<and> amt_chain a = chain \<and> amt_type a = Preminted"
  by (auto simp: premintedTokens_def)

lemma pushIndexers_eq:
  "pushIndexers config gp dpi chain bti svc toks (ds, vs) =
     (ds @ map (newPremintedIndexer bti svc) toks,
      vs @ map (\<lambda>p. newValueIndexer config gp dpi chain (newPremintedIndexer bti svc p) p) toks)"
  by (induction toks arbitrary: ds vs) (simp_all add: Let_def)

lemma configuration_new [simp]: "configuration (newPremintedIndexer bti svc a) = a"
  by (simp add: newPremintedIndexer_def)

lemma builtPair_new:
  assumes "lookupBlockTimestampIndexer btis chain = Some bti"
    and "a \<in> set (premintedTokens config chain)"
  shows "builtPair config gp dpi btis (newPremintedIndexer bti svc a)
           (newValueIndexer config gp dpi chain (newPremintedIndexer bti svc a) a)"
  using assms unfolding builtPair_def premintedTokens_mem
  by (intro exI [of _ bti] exI [of _ svc]) simp

lemma pushIndexers_builtPair:
  assumes "lookupBlockTimestampIndexer btis chain = Some bti"
    and "list_all2 (builtPair config gp dpi btis) ds vs"
  shows "list_all2 (builtPair config gp dpi btis)
           (fst (pushIndexers config gp dpi chain bti svc (premintedTokens config chain) (ds, vs)))
           (snd (pushIndexers config gp dpi chain bti svc (premintedTokens config chain) (ds, vs)))"
proof -
  have "list_all2 (builtPair config gp dpi btis)
          (map (newPremintedIndexer bti svc) (premintedTokens config chain))
          (map (\<lambda>p. newValueIndexer config gp dpi chain (newPremintedIndexer bti svc p) p)
             (premintedTokens config chain))"
    unfolding list_all2_map1 list_all2_map2
    by (rule list_all2_same [THEN iffD2]) (auto intro: builtPair_new [OF assms(1)])
  with assms(2) show ?thesis
    by (simp add: pushIndexers_eq list_all2_appendI)
qed

lemma createIndexersLoop_builtPair:
  "createIndexersLoop config gp dpi btis cs (ds, vs) = Inr (ds', vs') \<Longrightarrow>
   list_all2 (builtPair config gp dpi btis) ds vs \<Longrightarrow>
   list_all2 (builtPair config gp dpi btis) ds' vs'"
proof (induction cs arbitrary: ds vs)
  case Nil
  then show ?case by simp
next
  case (Cons cc cs)
  show ?case
  proof (cases "cfg_config cc")
    case None
    with Cons show ?thesis by simp
  next
    case (Some c)
    show ?thesis
    proof (cases "premintedTokens config (cfg_chain cc) = []")
      case True
      with Some Cons show ?thesis by simp
    next
      case False
      with Some Cons.prems(1) obtain bti where
        bti: "lookupBlockTimestampIndexer btis (cfg_chain cc) = Some bti"
        by (auto simp: Let_def split: option.splits)
      let ?svc = "\<lparr> svc_rpcClient = \<lparr> url = providerUrl c,
                       callsPerMinute = providerCallsPerMinute c, rpc_chain = cfg_chain cc \<rparr>,
                     svc_multicall = multicallConfig c \<rparr>"
      let ?acc = "pushIndexers config gp dpi (cfg_chain cc) bti ?svc
                    (premintedTokens config (cfg_chain cc)) (ds, vs)"
      from False Some bti Cons.prems(1) have
        "createIndexersLoop config gp dpi btis cs (fst ?acc, snd ?acc) = Inr (ds', vs')"
        by (simp add: Let_def)
      moreover have "list_all2 (builtPair config gp dpi btis) (fst ?acc) (snd ?acc)"
        by (rule pushIndexers_builtPair [OF bti Cons.prems(2)])
      ultimately show ?thesis by (rule Cons.IH)
    qed
  qed
qed

lemma createIndexers_builtPair:
  "createIndexers config gp dpi btis = Inr (ds, vs) \<Longrightarrow>
   list_all2 (builtPair config gp dpi btis) ds vs"
  unfolding createIndexers_def by (erule createIndexersLoop_builtPair) simp

section \<open>The module on the small configuration\<close>

lemma sample_createIndexers:
  "createIndexers sampleConfig samplePrices (DescendantIndexer 0) sampleIndexers =
     Inr ([sampleData, sampleData2], [sampleValue, sampleValue2])"
  by (simp add: createIndexers_def sampleConfig_def sampleChain_def sampleIndexers_def sampleData_def
      sampleValue_def sampleEntry_def sampleData2_def sampleValue2_def sampleEntry2_def
      samplePrices_def premintedTokens_def
      lookupBlockTimestampIndexer_def newPremintedIndexer_def newValueIndexer_def Let_def)

lemma sample_createIndexers_fails:
  "createIndexers sampleConfig samplePrices (DescendantIndexer 0) None =
     Inl (AssertionError assertMessage)"
  by (simp add: createIndexers_def sampleConfig_def sampleChain_def sampleEntry_def sampleEntry2_def
      premintedTokens_def lookupBlockTimestampIndexer_def Let_def)

lemma sample_btisDefined: "btisDefined sampleConfig sampleIndexers"
  by (simp add: btisDefined_def sampleConfig_def sampleChain_def sampleIndexers_def
      chainPositions_def lookupBlockTimestampIndexer_def)

lemma sample_not_btisDefined: "\<not> btisDefined sampleConfig None"
  by (simp add: btisDefined_def sampleConfig_def sampleChain_def sampleEntry_def
      chainPositions_def premintedTokens_def lookupBlockTimestampIndexer_def)

lemma sample_match: "\<not> noPremintedMatch sampleConfig"
  by (simp add: noPremintedMatch_def sampleConfig_def sampleChain_def sampleEntry_def)

lemma twoChain_createIndexers:
  "createIndexers twoChainConfig samplePrices (DescendantIndexer 0) (Some twoChainIndexers) =
     Inr ([sampleData, sampleDataB], [sampleValue, sampleValueB])"
  by (simp add: createIndexers_def twoChainConfig_def sampleChain_def sampleChainB_def
      twoChainIndexers_def sampleData_def sampleValue_def sampleEntry_def sampleDataB_def
      sampleValueB_def sampleEntryB_def samplePrices_def premintedTokens_def
      lookupBlockTimestampIndexer_def newPremintedIndexer_def newValueIndexer_def Let_def)

lemma chainPositions_empty_iff:
  "chainPositions config cc = [] \<longleftrightarrow>
     (cfg_config cc = None \<or>
      (\<forall>a \<in> set (tvl_amounts config). amt_type a = Preminted \<longrightarrow> amt_chain a \<noteq> cfg_chain cc))"
  by (auto simp: chainPositions_def premintedTokens_def filter_empty_conv split: option.splits)

lemma positions_empty_iff:
  "positions config cs = [] \<longleftrightarrow> (\<forall>cc \<in> set cs. chainPositions config cc = [])"
  by (simp add: positions_def)

lemma positions_Cons: "positions config (cc # cs) = chainPositions config cc @ positions config cs"
  by (simp add: positions_def)

text \<open>A chain entry that the loop skips leaves the arrays as they are.\<close>

lemma createIndexersLoop_skip:
  "chainPositions config cc = [] \<Longrightarrow>
   createIndexersLoop config gp dpi btis (cc # cs) acc = createIndexersLoop config gp dpi btis cs acc"
  by (simp add: chainPositions_def Let_def split: option.splits)

lemma createIndexersLoop_assert:
  "chainPositions config cc \<noteq> [] \<Longrightarrow> lookupBlockTimestampIndexer btis (cfg_chain cc) = None \<Longrightarrow>
   createIndexersLoop config gp dpi btis (cc # cs) acc = Inl (AssertionError assertMessage)"
  by (simp add: chainPositions_def Let_def split: option.splits)

lemma createIndexersLoop_push:
  "chainPositions config cc \<noteq> [] \<Longrightarrow> lookupBlockTimestampIndexer btis (cfg_chain cc) = Some bti \<Longrightarrow>
   createIndexersLoop config gp dpi btis (cc # cs) (ds, vs) =
     createIndexersLoop config gp dpi btis cs
       (ds @ map (newPremintedIndexer bti (chainService cc)) (chainPositions config cc),
        vs @ map (\<lambda>p. newValueIndexer config gp dpi (cfg_chain cc)
                         (newPremintedIndexer bti (chainService cc) p) p)
               (chainPositions config cc))"
  by (simp add: chainPositions_def chainService_def pushIndexers_eq Let_def split: option.splits)

declare createIndexersLoop.simps(2) [simp del]

lemma createIndexersLoop_fails:
  "cc \<in> set cs \<Longrightarrow> chainPositions config cc \<noteq> [] \<Longrightarrow>
   lookupBlockTimestampIndexer btis (cfg_chain cc) = None \<Longrightarrow>
   createIndexersLoop config gp dpi btis cs acc = Inl (AssertionError assertMessage)"
proof (induction cs arbitrary: acc)
  case Nil
  then show ?case by simp
next
  case (Cons c cs)
  show ?case
  proof (cases "chainPositions config c = []")
    case True
    with Cons.prems have "cc \<in> set cs" by auto
    with Cons True show ?thesis by (simp add: createIndexersLoop_skip)
  next
    case False
    show ?thesis
    proof (cases "lookupBlockTimestampIndexer btis (cfg_chain c)")
      case None
      with False show ?thesis by (rule createIndexersLoop_assert)
    next
      case (Some bti)
      with Cons.prems have "cc \<in> set cs" by auto
      with Cons.IH Cons.prems(2,3) show ?thesis
        by (cases acc) (simp add: createIndexersLoop_push [OF False Some])
    qed
  qed
qed

lemma createIndexersLoop_succeeds:
  "list_all (\<lambda>cc. chainPositions config cc = [] \<or>
                   lookupBlockTimestampIndexer btis (cfg_chain cc) \<noteq> None) cs \<Longrightarrow>
   \<exists>ds' vs'. createIndexersLoop config gp dpi btis cs acc = Inr (ds', vs')"
proof (induction cs arbitrary: acc)
  case Nil
  then show ?case by (cases acc) simp
next
  case (Cons c cs)
  show ?case
  proof (cases "chainPositions config c = []")
    case True
    with Cons show ?thesis by (simp add: createIndexersLoop_skip)
  next
    case False
    with Cons.prems obtain bti where "lookupBlockTimestampIndexer btis (cfg_chain c) = Some bti"
      by auto
    with Cons False show ?thesis
      by (cases acc) (simp add: createIndexersLoop_push)
  qed
qed

lemma createIndexersLoop_configurations:
  "createIndexersLoop config gp dpi btis cs (ds, vs) = Inr (ds', vs') \<Longrightarrow>
   map configuration ds' = map configuration ds @ positions config cs"
proof (induction cs arbitrary: ds vs)
  case Nil
  then show ?case by (simp add: positions_def)
next
  case (Cons c cs)
  show ?case
  proof (cases "chainPositions config c = []")
    case True
    with Cons show ?thesis by (simp add: createIndexersLoop_skip positions_Cons)
  next
    case False
    show ?thesis
    proof (cases "lookupBlockTimestampIndexer btis (cfg_chain c)")
      case None
      with False Cons.prems show ?thesis by (simp add: createIndexersLoop_assert)
    next
      case (Some bti)
      from Cons.prems have
        "map configuration ds' =
           map configuration (ds @ map (newPremintedIndexer bti (chainService c)) (chainPositions config c))
           @ positions config cs"
        unfolding createIndexersLoop_push [OF False Some] by (rule Cons.IH)
      then show ?thesis by (simp add: positions_Cons comp_def)
    qed
  qed
qed

lemma createIndexers_configurations:
  "createIndexers config gp dpi btis = Inr (ds, vs) \<Longrightarrow>
   map configuration ds = positions config (tvl_chains config)"
  unfolding createIndexers_def by (drule createIndexersLoop_configurations) simp

lemma createIndexers_succeeds:
  "btisDefined config btis \<Longrightarrow> \<exists>ds vs. createIndexers config gp dpi btis = Inr (ds, vs)"
  unfolding createIndexers_def btisDefined_def by (rule createIndexersLoop_succeeds)

lemma createIndexers_fails:
  "cc \<in> set (tvl_chains config) \<Longrightarrow> chainPositions config cc \<noteq> [] \<Longrightarrow>
   lookupBlockTimestampIndexer btis (cfg_chain cc) = None \<Longrightarrow>
   createIndexers config gp dpi btis = Inl (AssertionError assertMessage)"
  unfolding createIndexers_def by (rule createIndexersLoop_fails)

lemma createIndexers_no_positions:
  "positions config (tvl_chains config) = [] \<Longrightarrow> createIndexers config gp dpi btis = Inr ([], [])"
proof -
  have "positions config cs = [] \<Longrightarrow> createIndexersLoop config gp dpi btis cs acc = Inr acc"
    for cs acc
    by (induction cs) (simp_all add: positions_Cons createIndexersLoop_skip)
  then show "positions config (tvl_chains config) = [] \<Longrightarrow> ?thesis"
    by (simp add: createIndexers_def)
qed

lemma builtPair_fields:
  assumes "builtPair config gp dpi btis d v"
  shows "pi_parents d = [the (lookupBlockTimestampIndexer btis (amt_chain (configuration d)))]"
    and "lookupBlockTimestampIndexer btis (amt_chain (configuration d)) \<noteq> None"
    and "pi_minHeight d = sinceTimestamp (configuration d)"
    and "pi_maxHeight d = None"
    and "amt_type (configuration d) = Preminted"
    and "vi_parents v = [PriceParent dpi, DataParent d]"
    and "amountConfigs v = [configuration d]"
    and "vi_minHeight v = sinceTimestamp (configuration d)"
    and "vi_maxHeight v = untilTimestamp (configuration d)"
    and "dataSource v = amt_chain (configuration d) @ ''_preminted_'' @ address (configuration d)"
proof -
  from assms obtain bti svc where
    l: "lookupBlockTimestampIndexer btis (amt_chain (configuration d)) = Some bti" and
    t: "amt_type (configuration d) = Preminted" and
    d: "d = newPremintedIndexer bti svc (configuration d)" and
    v: "v = newValueIndexer config gp dpi (amt_chain (configuration d)) d (configuration d)"
    unfolding builtPair_def by blast
  show "pi_parents d = [the (lookupBlockTimestampIndexer btis (amt_chain (configuration d)))]"
    by (subst d) (simp add: newPremintedIndexer_def l)
  show "lookupBlockTimestampIndexer btis (amt_chain (configuration d)) \<noteq> None"
    using l by simp
  show "pi_minHeight d = sinceTimestamp (configuration d)"
    by (subst d) (simp add: newPremintedIndexer_def)
  show "pi_maxHeight d = None"
    by (subst d) (simp add: newPremintedIndexer_def)
  show "amt_type (configuration d) = Preminted" by (rule t)
  show "vi_parents v = [PriceParent dpi, DataParent d]"
    by (subst v) (simp add: newValueIndexer_def)
  show "amountConfigs v = [configuration d]"
    by (subst v) (simp add: newValueIndexer_def)
  show "vi_minHeight v = sinceTimestamp (configuration d)"
    by (subst v) (simp add: newValueIndexer_def)
  show "vi_maxHeight v = untilTimestamp (configuration d)"
    by (subst v) (simp add: newValueIndexer_def)
  show "dataSource v = amt_chain (configuration d) @ ''_preminted_'' @ address (configuration d)"
    by (subst v) (simp add: newValueIndexer_def)
qed

lemma created_value_has_data:
  assumes "createIndexers config gp dpi btis = Inr (ds, vs)" and "v \<in> set vs"
  shows "\<exists>d \<in> set ds. builtPair config gp dpi btis d v"
proof -
  have l: "list_all2 (builtPair config gp dpi btis) ds vs"
    by (rule createIndexers_builtPair [OF assms(1)])
  from assms(2) obtain i where i: "i < length vs" "v = vs ! i"
    by (auto simp: in_set_conv_nth)
  from l i have "builtPair config gp dpi btis (ds ! i) v" "ds ! i \<in> set ds"
    by (auto simp: list_all2_conv_all_nth)
  then show ?thesis by blast
qed

lemma created_data_has_value:
  assumes "createIndexers config gp dpi btis = Inr (ds, vs)" and "d \<in> set ds"
  shows "\<exists>v \<in> set vs. builtPair config gp dpi btis d v"
proof -
  have l: "list_all2 (builtPair config gp dpi btis) ds vs"
    by (rule createIndexers_builtPair [OF assms(1)])
  from assms(2) obtain i where i: "i < length ds" "d = ds ! i"
    by (auto simp: in_set_conv_nth)
  from l i have "builtPair config gp dpi btis d (vs ! i)" "vs ! i \<in> set vs"
    by (auto simp: list_all2_conv_all_nth)
  then show ?thesis by blast
qed

section \<open>Facts about start\<close>

lemma startEach_events:
  "e \<in> set (fst (startEach resolves is)) \<Longrightarrow>
   \<exists>i \<in> set is. e = StartBegins i \<or> e = StartCompletes i"
  by (induction "is" arbitrary: e) (auto split: if_splits prod.splits)

lemma startEach_completed:
  "snd (startEach resolves is) \<Longrightarrow> i \<in> set is \<Longrightarrow>
   StartCompletes i \<in> set (fst (startEach resolves is))"
  by (induction "is") (auto split: if_splits prod.splits)

lemma startEach_all_resolve:
  "\<forall>i \<in> set is. resolves i \<Longrightarrow>
   startEach resolves is = (concat (map (\<lambda>i. [StartBegins i, StartCompletes i]) is), True)"
  by (induction "is") simp_all

lemma start_eq:
  "start m resolves =
     (if \<not> snd (startEach resolves (map DataIndexerAt [0 ..< length (dataIndexers m)]))
      then (fst (startEach resolves (map DataIndexerAt [0 ..< length (dataIndexers m)])), False)
      else (fst (startEach resolves (map DataIndexerAt [0 ..< length (dataIndexers m)])) @
            fst (startEach resolves (map ValueIndexerAt [0 ..< length (valueIndexers m)])),
            snd (startEach resolves (map ValueIndexerAt [0 ..< length (valueIndexers m)]))))"
  by (simp add: start_def case_prod_beta)

lemma start_value_after_data:
  assumes j: "j < length (fst (start m resolves))"
    and v: "fst (start m resolves) ! j = StartBegins (ValueIndexerAt k)"
    and d: "i < length (dataIndexers m)"
  shows "\<exists>p<j. fst (start m resolves) ! p = StartCompletes (DataIndexerAt i)"
proof -
  let ?r1 = "startEach resolves (map DataIndexerAt [0 ..< length (dataIndexers m)])"
  let ?r2 = "startEach resolves (map ValueIndexerAt [0 ..< length (valueIndexers m)])"
  have no_value: "StartBegins (ValueIndexerAt k) \<notin> set (fst ?r1)"
    by (auto dest: startEach_events)
  show ?thesis
  proof (cases "snd ?r1")
    case False
    then have "fst (start m resolves) = fst ?r1"
      by (simp add: start_eq)
    with j v no_value show ?thesis by (metis nth_mem)
  next
    case True
    then have tr: "fst (start m resolves) = fst ?r1 @ fst ?r2"
      by (simp add: start_eq)
    have "\<not> j < length (fst ?r1)"
    proof
      assume "j < length (fst ?r1)"
      with v tr have "fst ?r1 ! j = StartBegins (ValueIndexerAt k)" by (simp add: nth_append)
      with \<open>j < length (fst ?r1)\<close> no_value show False by (metis nth_mem)
    qed
    moreover from True d have "StartCompletes (DataIndexerAt i) \<in> set (fst ?r1)"
      by (intro startEach_completed) auto
    then obtain p where "p < length (fst ?r1)" "fst ?r1 ! p = StartCompletes (DataIndexerAt i)"
      by (auto simp: in_set_conv_nth)
    ultimately show ?thesis
      unfolding tr by (intro exI [of _ p]) (simp add: nth_append)
  qed
qed

lemma start_events_value:
  assumes "StartBegins (ValueIndexerAt k) \<in> set (fst (start m resolves))"
  shows "k < length (valueIndexers m)"
proof -
  have "set (fst (start m resolves)) \<subseteq>
          set (fst (startEach resolves (map DataIndexerAt [0 ..< length (dataIndexers m)]))) \<union>
          set (fst (startEach resolves (map ValueIndexerAt [0 ..< length (valueIndexers m)])))"
    by (auto simp: start_eq)
  with assms consider
      "StartBegins (ValueIndexerAt k) \<in>
         set (fst (startEach resolves (map DataIndexerAt [0 ..< length (dataIndexers m)])))"
    | "StartBegins (ValueIndexerAt k) \<in>
         set (fst (startEach resolves (map ValueIndexerAt [0 ..< length (valueIndexers m)])))"
    by blast
  then show ?thesis
  proof cases
    case 1
    from startEach_events [OF this] show ?thesis by auto
  next
    case 2
    from startEach_events [OF this] show ?thesis by auto
  qed
qed

lemma start_all_resolve:
  assumes "\<forall>i \<in> set (map DataIndexerAt [0 ..< length (dataIndexers m)] @
                      map ValueIndexerAt [0 ..< length (valueIndexers m)]). resolves i"
  shows "start m resolves =
           (concat (map (\<lambda>i. [StartBegins i, StartCompletes i])
              (map DataIndexerAt [0 ..< length (dataIndexers m)] @
               map ValueIndexerAt [0 ..< length (valueIndexers m)])), True)"
proof -
  from assms have "\<forall>i \<in> set (map DataIndexerAt [0 ..< length (dataIndexers m)]). resolves i"
    and "\<forall>i \<in> set (map ValueIndexerAt [0 ..< length (valueIndexers m)]). resolves i"
    by auto
  then show ?thesis by (simp add: start_eq startEach_all_resolve)
qed

lemma initPremintedModule_Some:
  "initPremintedModule config gp dpi btis = Inr (Some m) \<Longrightarrow>
   createIndexers config gp dpi btis = Inr (dataIndexers m, valueIndexers m) \<and> dataIndexers m \<noteq> []"
  by (auto simp: initPremintedModule_def split: sum.splits prod.splits if_splits)

lemma sample_init:
  "initPremintedModule sampleConfig samplePrices (DescendantIndexer 0) sampleIndexers =
     Inr (Some \<lparr> dataIndexers = [sampleData, sampleData2],
                  valueIndexers = [sampleValue, sampleValue2] \<rparr>)"
  by (simp add: initPremintedModule_def sample_createIndexers)

lemma sample_start:
  "start \<lparr> dataIndexers = [sampleData, sampleData2], valueIndexers = [sampleValue, sampleValue2] \<rparr>
     (\<lambda>i. True) =
   ([StartBegins (DataIndexerAt 0), StartCompletes (DataIndexerAt 0),
     StartBegins (DataIndexerAt 1), StartCompletes (DataIndexerAt 1),
     StartBegins (ValueIndexerAt 0), StartCompletes (ValueIndexerAt 0),
     StartBegins (ValueIndexerAt 1), StartCompletes (ValueIndexerAt 1)], True)"
  by (simp add: start_def upt_rec)

text \<open>
  Two data indexers with equal options are two objects: the first can resolve and the
  second reject.
\<close>

lemma sample_start_second_rejects:
  "start \<lparr> dataIndexers = [sampleData, sampleData], valueIndexers = [sampleValue, sampleValue] \<rparr>
     (\<lambda>i. i = DataIndexerAt 0) =
   ([StartBegins (DataIndexerAt 0), StartCompletes (DataIndexerAt 0),
     StartBegins (DataIndexerAt 1)], False)"
  by (simp add: start_def upt_rec)

section \<open>The positions that the loop visits\<close>

lemma chainPositions_mem:
  "a \<in> set (chainPositions config cc) \<longleftrightarrow>
     cfg_config cc \<noteq> None \<and> a \<in> set (tvl_amounts config) \<and> amt_chain a = cfg_chain cc \<and>
     amt_type a = Preminted"
  by (cases "cfg_config cc") (simp_all add: chainPositions_def premintedTokens_mem)

lemma positions_mem:
  "a \<in> set (positions config cs) \<longleftrightarrow>
     a \<in> set (tvl_amounts config) \<and> amt_type a = Preminted \<and>
     (\<exists>cc \<in> set cs. cfg_config cc \<noteq> None \<and> cfg_chain cc = amt_chain a)"
  unfolding positions_def set_concat by (simp add: chainPositions_mem) metis

lemma noPremintedMatch_positions:
  "noPremintedMatch config \<longleftrightarrow> positions config (tvl_chains config) = []"
proof
  assume n: "noPremintedMatch config"
  have "a \<notin> set (positions config (tvl_chains config))" for a
    using n unfolding noPremintedMatch_def positions_mem by metis
  then show "positions config (tvl_chains config) = []"
    by (cases "positions config (tvl_chains config)") auto
next
  assume "positions config (tvl_chains config) = []"
  then have "a \<notin> set (positions config (tvl_chains config))" for a by simp
  then show "noPremintedMatch config"
    unfolding noPremintedMatch_def positions_mem by metis
qed

lemma not_btisDefined:
  "\<not> btisDefined config btis \<Longrightarrow>
   \<exists>cc \<in> set (tvl_chains config). chainPositions config cc \<noteq> [] \<and>
      lookupBlockTimestampIndexer btis (cfg_chain cc) = None"
  by (auto simp: btisDefined_def list_all_iff)

lemma chainPositions_distinct:
  "distinct (tvl_amounts config) \<Longrightarrow> distinct (chainPositions config cc)"
  by (simp add: chainPositions_def premintedTokens_def split: option.splits)

lemma chainPositions_chain:
  "a \<in> set (chainPositions config cc) \<Longrightarrow> amt_chain a = cfg_chain cc"
  by (auto simp: chainPositions_def premintedTokens_mem split: option.splits)

lemma positions_distinct:
  "distinct (map cfg_chain cs) \<Longrightarrow> distinct (tvl_amounts config) \<Longrightarrow>
   distinct (positions config cs)"
proof (induction cs)
  case Nil
  then show ?case by (simp add: positions_def)
next
  case (Cons c cs)
  have "set (chainPositions config c) \<inter> set (positions config cs) = {}"
  proof (rule ccontr)
    assume "set (chainPositions config c) \<inter> set (positions config cs) \<noteq> {}"
    then obtain a where "a \<in> set (chainPositions config c)" "a \<in> set (positions config cs)"
      by blast
    then obtain cc where "cc \<in> set cs" "cfg_chain cc = cfg_chain c"
      by (auto simp: positions_mem dest: chainPositions_chain)
    then have "cfg_chain c \<in> cfg_chain ` set cs" by (metis image_eqI)
    with Cons.prems(1) show False by simp
  qed
  with Cons show ?case
    by (simp add: positions_Cons chainPositions_distinct)
qed

lemma distinct_filter_one:
  "distinct xs \<Longrightarrow> a \<in> set xs \<Longrightarrow> length (filter (\<lambda>x. x = a) xs) = 1"
proof (induction xs)
  case Nil
  then show ?case by simp
next
  case (Cons x xs)
  show ?case
  proof (cases "x = a")
    case True
    with Cons.prems have "filter (\<lambda>x. x = a) xs = []"
      by (auto simp: filter_empty_conv)
    with True show ?thesis by simp
  next
    case False
    with Cons show ?thesis by simp
  qed
qed

lemma builtPairs_fields:
  assumes "list_all2 (builtPair config gp dpi btis) ds vs"
  shows "map amountConfigs vs = map (\<lambda>a. [a]) (map configuration ds)"
    and "map pi_minHeight ds = map sinceTimestamp (map configuration ds)"
    and "map vi_minHeight vs = map sinceTimestamp (map configuration ds)"
    and "map vi_maxHeight vs = map untilTimestamp (map configuration ds)"
  using assms
  by (induction rule: list_all2_induct) (simp_all add: builtPair_fields)

section \<open>Facts about the cycles\<close>

lemma batch_mem: "t \<in> set (batch c b w) \<Longrightarrow> c < t \<and> t \<le> b"
  by (simp add: batch_def)

lemma capAt_le: "capAt b m \<le> b"
  by (simp add: capAt_def split: option.splits)

lemma capAt_Some_le: "capAt b (Some h) \<le> h"
  by (simp add: capAt_def)

lemma dataSafeBound_le_parent: "dataSafeBound d p \<le> p"
  unfolding dataSafeBound_def by (meson capAt_le order_trans)

lemma dataSafeBound_le_end:
  assumes "untilTimestamp (configuration d) = Some e \<or> pi_maxHeight d = Some e"
  shows "dataSafeBound d p \<le> e"
proof -
  from assms consider "untilTimestamp (configuration d) = Some e" | "pi_maxHeight d = Some e"
    by blast
  then show ?thesis
  proof cases
    case 1
    then show ?thesis by (simp add: dataSafeBound_def capAt_Some_le)
  next
    case 2
    have "dataSafeBound d p \<le> capAt p (pi_maxHeight d)"
      unfolding dataSafeBound_def by (rule capAt_le)
    also have "\<dots> \<le> e" unfolding 2 by (rule capAt_Some_le)
    finally show ?thesis .
  qed
qed

lemma valueSafeBound_le: "valueSafeBound v dc pc \<le> min dc pc"
  unfolding valueSafeBound_def by (rule capAt_le)

lemma processData_cursor:
  "d_cursor (fst (processData r ts s)) \<in> insert (d_cursor s) (set ts)"
proof (induction ts arbitrary: s)
  case Nil
  then show ?case by simp
next
  case (Cons t ts)
  show ?case
  proof (cases "r t")
    case (Amount q)
    from Cons [of "s\<lparr> rawAmounts := (rawAmounts s)(t \<mapsto> q), d_cursor := t \<rparr>"] Amount
    show ?thesis by auto
  qed simp_all
qed

lemma processValue_cursor:
  "v_cursor (fst (processValue raw price ts s)) \<in> insert (v_cursor s) (set ts)"
proof (induction ts arbitrary: s)
  case Nil
  then show ?case by simp
next
  case (Cons t ts)
  show ?case
  proof (cases "raw t")
    case None
    then show ?thesis by simp
  next
    case (Some q)
    show ?thesis
    proof (cases "price t")
      case None
      with Some show ?thesis by simp
    next
      case (Some f)
      from Cons [of "s\<lparr> pricedValues := (pricedValues s)(t \<mapsto> q * f), v_cursor := t \<rparr>"]
        \<open>raw t = Some q\<close> Some
      show ?thesis by auto
    qed
  qed
qed

lemma processPrice_cursor: "processPrice price ts c \<in> insert c (set ts)"
proof (induction ts arbitrary: c)
  case Nil
  then show ?case by simp
next
  case (Cons t ts)
  from Cons [of t] show ?case by (cases "price t") auto
qed

lemma dataCycle_cursor:
  "d_cursor s \<le> d_cursor (fst (dataCycle d r w p s)) \<and>
   d_cursor (fst (dataCycle d r w p s)) \<le> max (d_cursor s) (dataSafeBound d p)"
  using processData_cursor [of r "batch (d_cursor s) (dataSafeBound d p) w" s]
  by (auto simp: dataCycle_def dest!: batch_mem)

lemma dataCycle_at_end:
  assumes "untilTimestamp (configuration d) = Some e \<or> pi_maxHeight d = Some e"
    and "e \<le> d_cursor s"
  shows "dataCycle d r w p s = (s, CycleDone)"
proof -
  from dataSafeBound_le_end [OF assms(1), of p] assms(2)
  have "batch (d_cursor s) (dataSafeBound d p) w = []"
    by (simp add: batch_def)
  then show ?thesis by (simp add: dataCycle_def)
qed

lemma valueCycle_cursor:
  "v_cursor s \<le> v_cursor (fst (valueCycle v raw price dc pc s)) \<and>
   v_cursor (fst (valueCycle v raw price dc pc s)) \<le> max (v_cursor s) (min dc pc)"
  using processValue_cursor [of raw price "[v_cursor s + 1 .. valueSafeBound v dc pc]" s]
    valueSafeBound_le [of v dc pc]
  by (auto simp: valueCycle_def)

lemma priceCycle_cursor: "c \<le> priceCycle price upstream w c"
  using processPrice_cursor [of price "batch c upstream w" c]
  by (auto simp: priceCycle_def dest!: batch_mem)

lemma blockTimestampStep_cursor: "bt_cursor s \<le> bt_cursor (blockTimestampStep r n s)"
  by (simp add: blockTimestampStep_def split: option.splits)

subsection \<open>Steps and runs of the graph\<close>

lemma run_Nil [simp]: "run d v [] s = s"
  by (simp add: run_def)

lemma run_Cons [simp]: "run d v (ev # evs) s = run d v evs (graphStep d v s ev)"
  by (simp add: run_def)

lemma run_append: "run d v (evs1 @ evs2) s = run d v evs2 (run d v evs1 s)"
  by (simp add: run_def)

lemma graphStep_cursors:
  "bt_cursor (bts s) \<le> bt_cursor (bts (graphStep d v s ev))"
  "d_cursor (dat s) \<le> d_cursor (dat (graphStep d v s ev))"
  "priceCursor s \<le> priceCursor (graphStep d v s ev)"
  "v_cursor (val s) \<le> v_cursor (val (graphStep d v s ev))"
  by (cases ev; simp add: blockTimestampStep_cursor dataCycle_cursor priceCycle_cursor
      valueCycle_cursor)+

lemma run_cursors:
  "bt_cursor (bts s) \<le> bt_cursor (bts (run d v evs s)) \<and>
   d_cursor (dat s) \<le> d_cursor (dat (run d v evs s)) \<and>
   priceCursor s \<le> priceCursor (run d v evs s) \<and>
   v_cursor (val s) \<le> v_cursor (val (run d v evs s))"
proof (induction evs arbitrary: s)
  case Nil
  then show ?case by simp
next
  case (Cons ev evs)
  from Cons [of "graphStep d v s ev"] graphStep_cursors [of s d v ev]
  show ?case by (simp only: run_Cons) linarith
qed

lemma graphStep_value_bound:
  "v_cursor (val (graphStep d v s ev)) \<le>
     max (v_cursor (val s)) (min (d_cursor (dat (graphStep d v s ev))) (priceCursor (graphStep d v s ev)))"
proof (cases ev)
  case ValueCycle
  with valueCycle_cursor [of "val s" v "rawAmounts (dat s)" "pricePoints s" "d_cursor (dat s)"
      "priceCursor s"]
  show ?thesis by simp
qed simp_all

lemma run_value_bound:
  "v_cursor (val (run d v evs s)) \<le>
     max (v_cursor (val s)) (min (d_cursor (dat (run d v evs s))) (priceCursor (run d v evs s)))"
proof (induction evs arbitrary: s)
  case Nil
  then show ?case by simp
next
  case (Cons ev evs)
  let ?s1 = "graphStep d v s ev"
  from Cons [of ?s1] graphStep_value_bound [of d v s ev] run_cursors [of ?s1 d v evs]
  show ?case by (simp only: run_Cons) linarith
qed

lemma run_dependencyBound:
  assumes "dependencyBound s"
  shows "dependencyBound (run d v evs s)"
  using assms run_value_bound [of d v evs s] run_cursors [of s d v evs]
  unfolding dependencyBound_def by linarith

lemma graphStep_data_at_end:
  assumes "untilTimestamp (configuration d) = Some e \<or> pi_maxHeight d = Some e"
    and "e \<le> d_cursor (dat s)"
  shows "dat (graphStep d v s ev) = dat s"
  by (cases ev) (simp_all add: dataCycle_at_end [OF assms])

lemma run_data_at_end:
  assumes "untilTimestamp (configuration d) = Some e \<or> pi_maxHeight d = Some e"
  shows "e \<le> d_cursor (dat s) \<Longrightarrow> dat (run d v evs s) = dat s"
proof (induction evs arbitrary: s)
  case Nil
  then show ?case by simp
next
  case (Cons ev evs)
  from graphStep_data_at_end [OF assms Cons.prems] have "dat (graphStep d v s ev) = dat s" .
  with Cons.IH [of "graphStep d v s ev"] Cons.prems show ?case by simp
qed

lemma graphStep_data_below_end:
  assumes "untilTimestamp (configuration d) = Some e \<or> pi_maxHeight d = Some e"
    and "d_cursor (dat s) \<le> e"
  shows "d_cursor (dat (graphStep d v s ev)) \<le> e"
proof (cases ev)
  case (DataCycle readAt w)
  let ?s' = "fst (dataCycle d (resolveAmount readAt (bts s)) w (bt_cursor (bts s)) (dat s))"
  have "d_cursor ?s' \<le> max (d_cursor (dat s)) (dataSafeBound d (bt_cursor (bts s)))"
    using dataCycle_cursor by blast
  also have "\<dots> \<le> e"
    using dataSafeBound_le_end [OF assms(1), of "bt_cursor (bts s)"] assms(2) by simp
  finally show ?thesis using DataCycle by simp
qed (simp_all add: assms(2))

lemma run_data_below_end:
  assumes "untilTimestamp (configuration d) = Some e \<or> pi_maxHeight d = Some e"
  shows "d_cursor (dat s) \<le> e \<Longrightarrow> d_cursor (dat (run d v evs s)) \<le> e"
proof (induction evs arbitrary: s)
  case Nil
  then show ?case by simp
next
  case (Cons ev evs)
  from graphStep_data_below_end [OF assms Cons.prems] Cons.IH [of "graphStep d v s ev"]
  show ?case by simp
qed

section \<open>Facts about the retry policy\<close>

lemma callWithRetry_always_failing:
  assumes "\<forall>k. provider k = NetworkFailure"
  shows "callWithRetry provider n made delay =
           (Inl ProviderUnavailable, made + n, delay * (2 ^ (n - 1) - 1))"
proof (induction n arbitrary: made delay)
  case 0
  then show ?case by simp
next
  case (Suc n)
  show ?case
  proof (cases n)
    case 0
    with assms show ?thesis by simp
  next
    case (Suc m)
    obtain k where k: "(2::nat) ^ m = Suc k"
      by (cases "(2::nat) ^ m") auto
    have "delay + 2 * delay * (2 ^ m - 1) = delay * (2 * 2 ^ m - 1)"
      by (simp add: k algebra_simps)
    with assms Suc.IH [of "Suc made" "2 * delay"] Suc show ?thesis by simp
  qed
qed

section \<open>The cycles on the small configuration\<close>

lemma sample_data_cycle:
  "d_cursor (dat (run sampleData sampleValue [DataCycle (\<lambda>b. Some 1000) 10] sampleGraph)) = 110"
  by (simp add: sampleGraph_def sampleData_def sampleEntry_def
      sampleBlocks_def dataCycle_def dataSafeBound_def capAt_def batch_def resolveAmount_def)

lemma sample_data_then_value_cycle:
  "v_cursor (val (run sampleData sampleValue [DataCycle (\<lambda>b. Some 1000) 10, ValueCycle]
                    sampleGraph)) = 105 \<and>
   pricedValues (val (run sampleData sampleValue [DataCycle (\<lambda>b. Some 1000) 10, ValueCycle]
                        sampleGraph)) 105 = Some 2000 \<and>
   priceCursor (run sampleData sampleValue [DataCycle (\<lambda>b. Some 1000) 10, ValueCycle]
                  sampleGraph) = 105 \<and>
   d_cursor (dat (run sampleData sampleValue [DataCycle (\<lambda>b. Some 1000) 10, ValueCycle]
                    sampleGraph)) = 110"
  by (simp add: sampleGraph_def sampleData_def sampleEntry_def
      sampleValue_def sampleBlocks_def dataCycle_def dataSafeBound_def capAt_def batch_def
      resolveAmount_def valueCycle_def valueSafeBound_def)

lemma sample_dependencyBound: "dependencyBound sampleGraph"
  by (simp add: dependencyBound_def sampleGraph_def
      sampleData_def sampleValue_def)

lemma sample_call_recovers:
  "call samplePolicy (\<lambda>k. if k = 0 then NetworkFailure else Response (7::int)) = (Inr 7, 2, 100)"
  by (simp add: call_def samplePolicy_def numeral_3_eq_3)

section \<open>The indexers that the module creates\<close>

text \<open>
  C4. Every Data Indexer that \<^verbatim>\<open>createIndexers\<close> returns was built from a preminted
  entry of the configuration; a map of Block-Timestamp Indexers was passed, it has an
  indexer under the chain of that entry, the declared parents of the Data Indexer are
  exactly that one indexer, and its minimum height is the entry's inclusive start
  timestamp.
\<close>

theorem data_indexer_parent_and_min_height:
  assumes "createIndexers config gp dpi btis = Inr (ds, vs)" and "d \<in> set ds"
  shows "configuration d \<in> set (tvl_amounts config) \<and> amt_type (configuration d) = Preminted \<and>
         (\<exists>m bti. btis = Some m \<and> m (amt_chain (configuration d)) = Some bti \<and>
                  pi_parents d = [bti]) \<and>
         pi_minHeight d = sinceTimestamp (configuration d)"
proof -
  from created_data_has_value [OF assms] obtain v where b: "builtPair config gp dpi btis d v"
    by blast
  from assms(2) have "configuration d \<in> set (map configuration ds)" by simp
  then have "configuration d \<in> set (positions config (tvl_chains config))"
    by (simp only: createIndexers_configurations [OF assms(1)])
  then have a: "configuration d \<in> set (tvl_amounts config)"
    by (auto simp: positions_def chainPositions_def premintedTokens_mem split: option.splits)
  from builtPair_fields(2) [OF b] obtain m bti where
    m: "btis = Some m" "m (amt_chain (configuration d)) = Some bti"
    by (auto simp: lookupBlockTimestampIndexer_def split: option.splits)
  with builtPair_fields(1) [OF b] have "pi_parents d = [bti]"
    by (simp add: lookupBlockTimestampIndexer_def)
  with a m builtPair_fields(3,5) [OF b] show ?thesis by blast
qed

theorem data_indexer_parent_and_min_height_witness:
  "createIndexers twoChainConfig samplePrices (DescendantIndexer 0) (Some twoChainIndexers) =
     Inr ([sampleData, sampleDataB], [sampleValue, sampleValueB]) \<and>
   amt_chain (configuration sampleData) = ''ethereum'' \<and>
   amt_chain (configuration sampleDataB) = ''arbitrum'' \<and>
   twoChainIndexers ''ethereum'' = Some (BlockTimestampIndexer 1) \<and>
   twoChainIndexers ''arbitrum'' = Some (BlockTimestampIndexer 2) \<and>
   pi_parents sampleData = [BlockTimestampIndexer 1] \<and>
   pi_parents sampleDataB = [BlockTimestampIndexer 2] \<and>
   pi_minHeight sampleData = 100 \<and> pi_minHeight sampleDataB = 70"
proof -
  have c: "amt_chain (configuration sampleData) = ''ethereum''"
    "amt_chain (configuration sampleDataB) = ''arbitrum''"
    "sinceTimestamp (configuration sampleData) = 100"
    "sinceTimestamp (configuration sampleDataB) = 70"
    by (simp_all add: sampleData_def sampleDataB_def sampleEntry_def sampleEntryB_def)
  have t: "twoChainIndexers ''ethereum'' = Some (BlockTimestampIndexer 1)"
    "twoChainIndexers ''arbitrum'' = Some (BlockTimestampIndexer 2)"
    by (simp_all add: twoChainIndexers_def)
  from data_indexer_parent_and_min_height [OF twoChain_createIndexers, of sampleData]
  have 1: "pi_parents sampleData = [BlockTimestampIndexer 1] \<and> pi_minHeight sampleData = 100"
    unfolding c using t by auto
  from data_indexer_parent_and_min_height [OF twoChain_createIndexers, of sampleDataB]
  have 2: "pi_parents sampleDataB = [BlockTimestampIndexer 2] \<and> pi_minHeight sampleDataB = 70"
    unfolding c using t by auto
  from 1 2 c t twoChain_createIndexers show ?thesis by simp
qed

text \<open>
  C6. The data source key of the Value Indexer of a preminted position is the chain, the
  text \<^verbatim>\<open>_preminted_\<close> and the address, joined; two Value Indexers of positions on
  the same chain with different addresses have different keys.
\<close>

theorem data_source_key_distinct:
  assumes "createIndexers config gp dpi btis = Inr (ds, vs)"
    and "v1 \<in> set vs" and "v2 \<in> set vs"
    and "amountConfigs v1 = [a1]" and "amountConfigs v2 = [a2]"
  shows "dataSource v1 = amt_chain a1 @ ''_preminted_'' @ address a1 \<and>
         (amt_chain a1 = amt_chain a2 \<and> address a1 \<noteq> address a2 \<longrightarrow>
            dataSource v1 \<noteq> dataSource v2)"
proof -
  from created_value_has_data [OF assms(1,2)] obtain d1 where
    b1: "builtPair config gp dpi btis d1 v1" by blast
  from created_value_has_data [OF assms(1,3)] obtain d2 where
    b2: "builtPair config gp dpi btis d2 v2" by blast
  from builtPair_fields(7) [OF b1] assms(4) have c1: "configuration d1 = a1" by simp
  from builtPair_fields(7) [OF b2] assms(5) have c2: "configuration d2 = a2" by simp
  from builtPair_fields(10) [OF b1] builtPair_fields(10) [OF b2] c1 c2
  show ?thesis by simp
qed

theorem data_source_key_distinct_witness:
  "createIndexers sampleConfig samplePrices (DescendantIndexer 0) sampleIndexers =
     Inr ([sampleData, sampleData2], [sampleValue, sampleValue2]) \<and>
   amountConfigs sampleValue = [sampleEntry] \<and> amountConfigs sampleValue2 = [sampleEntry2] \<and>
   amt_chain sampleEntry = amt_chain sampleEntry2 \<and> address sampleEntry \<noteq> address sampleEntry2 \<and>
   dataSource sampleValue = ''ethereum_preminted_0xA'' \<and>
   dataSource sampleValue \<noteq> dataSource sampleValue2"
  using data_source_key_distinct [OF sample_createIndexers, of sampleValue sampleValue2
      sampleEntry sampleEntry2] sample_createIndexers
  by (simp add: sampleValue_def sampleValue2_def sampleEntry_def sampleEntry2_def)

text \<open>
  C9. When some enabled chain (a chain entry with a config) has a preminted entry and no
  Block-Timestamp Indexer is registered for that chain, \<^verbatim>\<open>initPremintedModule\<close> fails
  with the assertion error. It returns no module, so no \<^verbatim>\<open>start\<close> exists that
  could start an indexer.
\<close>

theorem missing_block_timestamp_indexer_fails:
  assumes "cc \<in> set (tvl_chains config)" and "cfg_config cc \<noteq> None"
    and "a \<in> set (tvl_amounts config)" and "amt_type a = Preminted"
    and "amt_chain a = cfg_chain cc"
    and "lookupBlockTimestampIndexer btis (cfg_chain cc) = None"
  shows "initPremintedModule config gp dpi btis = Inl (AssertionError assertMessage) \<and>
         (\<forall>m. initPremintedModule config gp dpi btis \<noteq> Inr m)"
proof -
  from assms(2-5) have "chainPositions config cc \<noteq> []"
    by (auto simp: chainPositions_empty_iff)
  from createIndexers_fails [OF assms(1) this assms(6)]
  show ?thesis by (simp add: initPremintedModule_def)
qed

theorem missing_block_timestamp_indexer_fails_witness:
  "sampleChain \<in> set (tvl_chains sampleConfig) \<and>
   cfg_config (sampleChain) \<noteq> None \<and>
   sampleEntry \<in> set (tvl_amounts sampleConfig) \<and> amt_type sampleEntry = Preminted \<and>
   amt_chain sampleEntry = cfg_chain (sampleChain) \<and>
   lookupBlockTimestampIndexer None (cfg_chain (sampleChain)) = None \<and>
   initPremintedModule sampleConfig samplePrices (DescendantIndexer 0) None =
     Inl (AssertionError assertMessage)"
  using missing_block_timestamp_indexer_fails [of sampleChain sampleConfig
      sampleEntry None samplePrices "DescendantIndexer 0"]
  by (simp add: sampleConfig_def sampleChain_def sampleEntry_def lookupBlockTimestampIndexer_def)

text \<open>
  C7. In every run of the \<^verbatim>\<open>start\<close> of a module that \<^verbatim>\<open>initPremintedModule\<close>
  returned, whatever the \<^verbatim>\<open>start()\<close> of each object does, whenever the
  \<^verbatim>\<open>start()\<close> of the Value Indexer at a position begins, the \<^verbatim>\<open>start()\<close> of
  the Data Indexer at every position has completed earlier; in particular that of the
  Data Indexer at the same position, which is the one the Value Indexer declares as its
  parent.
\<close>

theorem data_indexers_start_before_value_indexers:
  assumes "initPremintedModule config gp dpi btis = Inr (Some m)"
    and "j < length (fst (start m resolves))"
    and "fst (start m resolves) ! j = StartBegins (ValueIndexerAt k)"
  shows "(\<forall>i < length (dataIndexers m).
            \<exists>p<j. fst (start m resolves) ! p = StartCompletes (DataIndexerAt i)) \<and>
         k < length (dataIndexers m) \<and>
         vi_parents (valueIndexers m ! k) = [PriceParent dpi, DataParent (dataIndexers m ! k)] \<and>
         (\<exists>p<j. fst (start m resolves) ! p = StartCompletes (DataIndexerAt k))"
proof -
  have all: "\<forall>i < length (dataIndexers m).
               \<exists>p<j. fst (start m resolves) ! p = StartCompletes (DataIndexerAt i)"
    using start_value_after_data [OF assms(2,3)] by blast
  from assms(2,3) have "StartBegins (ValueIndexerAt k) \<in> set (fst (start m resolves))"
    by (metis nth_mem)
  then have k: "k < length (valueIndexers m)" by (rule start_events_value)
  from initPremintedModule_Some [OF assms(1)]
  have l: "list_all2 (builtPair config gp dpi btis) (dataIndexers m) (valueIndexers m)"
    by (blast dest: createIndexers_builtPair)
  with k have kd: "k < length (dataIndexers m)"
    and b: "builtPair config gp dpi btis (dataIndexers m ! k) (valueIndexers m ! k)"
    by (simp_all add: list_all2_conv_all_nth)
  from builtPair_fields(6) [OF b] all kd show ?thesis by blast
qed

theorem data_indexers_start_before_value_indexers_witness:
  "initPremintedModule sampleConfig samplePrices (DescendantIndexer 0) sampleIndexers =
     Inr (Some \<lparr> dataIndexers = [sampleData, sampleData2],
                  valueIndexers = [sampleValue, sampleValue2] \<rparr>) \<and>
   fst (start \<lparr> dataIndexers = [sampleData, sampleData2],
                valueIndexers = [sampleValue, sampleValue2] \<rparr> (\<lambda>i. True)) ! 6 =
     StartBegins (ValueIndexerAt 1) \<and>
   vi_parents sampleValue2 = [PriceParent (DescendantIndexer 0), DataParent sampleData2] \<and>
   (\<exists>p<6. fst (start \<lparr> dataIndexers = [sampleData, sampleData2],
                valueIndexers = [sampleValue, sampleValue2] \<rparr> (\<lambda>i. True)) ! p =
     StartCompletes (DataIndexerAt 1))"
  using data_indexers_start_before_value_indexers [OF sample_init, of 6 "\<lambda>i. True" 1]
    sample_init
  by (simp add: sample_start)

text \<open>
  C10, as stated, fails: on the small configuration without any Block-Timestamp Indexer
  a preminted entry is on an enabled chain, and \<^verbatim>\<open>initPremintedModule\<close> returns
  neither \<^verbatim>\<open>undefined\<close> nor a module: the assertion fails.
\<close>

theorem init_neither_undefined_nor_module:
  "sampleEntry \<in> set (tvl_amounts sampleConfig) \<and> amt_type sampleEntry = Preminted \<and>
   sampleChain \<in> set (tvl_chains sampleConfig) \<and> cfg_config sampleChain \<noteq> None \<and>
   amt_chain sampleEntry = cfg_chain sampleChain \<and>
   \<not> noPremintedMatch sampleConfig \<and>
   initPremintedModule sampleConfig samplePrices (DescendantIndexer 0) None =
     Inl (AssertionError assertMessage)"
proof -
  have "initPremintedModule sampleConfig samplePrices (DescendantIndexer 0) None =
          Inl (AssertionError assertMessage)"
    by (simp add: initPremintedModule_def sample_createIndexers_fails)
  moreover have "sampleEntry \<in> set (tvl_amounts sampleConfig)"
    and "sampleChain \<in> set (tvl_chains sampleConfig)"
    by (simp_all add: sampleConfig_def)
  moreover have "amt_type sampleEntry = Preminted" and "cfg_config sampleChain \<noteq> None"
    and "amt_chain sampleEntry = cfg_chain sampleChain"
    by (simp_all add: sampleEntry_def sampleChain_def)
  ultimately show ?thesis using sample_match by simp
qed

text \<open>
  C10, amended. \<^verbatim>\<open>initPremintedModule\<close> returns \<^verbatim>\<open>undefined\<close> exactly when no
  preminted entry is on an enabled chain. Otherwise, when every enabled chain that has
  preminted entries has a Block-Timestamp Indexer, it returns a module that holds the
  created indexers, and whose \<^verbatim>\<open>start\<close>, when every indexer's \<^verbatim>\<open>start()\<close>
  resolves, starts every created Data Indexer and then every created Value Indexer, each
  in array order, and completes. When some such chain has no Block-Timestamp Indexer, it fails with the
  assertion error.
\<close>

theorem init_undefined_module_or_failure:
  "(initPremintedModule config gp dpi btis = Inr None \<longleftrightarrow> noPremintedMatch config) \<and>
   (\<not> noPremintedMatch config \<and> btisDefined config btis \<longrightarrow>
      (\<exists>m. initPremintedModule config gp dpi btis = Inr (Some m) \<and>
           createIndexers config gp dpi btis = Inr (dataIndexers m, valueIndexers m) \<and>
           (\<forall>resolves.
              (\<forall>i \<in> set (map DataIndexerAt [0 ..< length (dataIndexers m)] @
                            map ValueIndexerAt [0 ..< length (valueIndexers m)]). resolves i) \<longrightarrow>
              start m resolves =
                (concat (map (\<lambda>i. [StartBegins i, StartCompletes i])
                   (map DataIndexerAt [0 ..< length (dataIndexers m)] @
                    map ValueIndexerAt [0 ..< length (valueIndexers m)])), True)))) \<and>
   (\<not> btisDefined config btis \<longrightarrow>
      initPremintedModule config gp dpi btis = Inl (AssertionError assertMessage))"
proof (intro conjI impI)
  show "initPremintedModule config gp dpi btis = Inr None \<longleftrightarrow> noPremintedMatch config"
  proof
    assume "initPremintedModule config gp dpi btis = Inr None"
    then obtain vs where "createIndexers config gp dpi btis = Inr ([], vs)"
      by (auto simp: initPremintedModule_def split: sum.splits prod.splits if_splits)
    from createIndexers_configurations [OF this] show "noPremintedMatch config"
      by (simp add: noPremintedMatch_positions)
  next
    assume "noPremintedMatch config"
    then have "createIndexers config gp dpi btis = Inr ([], [])"
      by (simp add: noPremintedMatch_positions createIndexers_no_positions)
    then show "initPremintedModule config gp dpi btis = Inr None"
      by (simp add: initPremintedModule_def)
  qed
next
  assume a: "\<not> noPremintedMatch config \<and> btisDefined config btis"
  then obtain ds vs where c: "createIndexers config gp dpi btis = Inr (ds, vs)"
    using createIndexers_succeeds by blast
  from createIndexers_configurations [OF c] a have "ds \<noteq> []"
    by (auto simp: noPremintedMatch_positions)
  with c have "initPremintedModule config gp dpi btis =
                 Inr (Some \<lparr> dataIndexers = ds, valueIndexers = vs \<rparr>)"
    by (simp add: initPremintedModule_def)
  with c show "\<exists>m. initPremintedModule config gp dpi btis = Inr (Some m) \<and>
           createIndexers config gp dpi btis = Inr (dataIndexers m, valueIndexers m) \<and>
           (\<forall>resolves.
              (\<forall>i \<in> set (map DataIndexerAt [0 ..< length (dataIndexers m)] @
                            map ValueIndexerAt [0 ..< length (valueIndexers m)]). resolves i) \<longrightarrow>
              start m resolves =
                (concat (map (\<lambda>i. [StartBegins i, StartCompletes i])
                   (map DataIndexerAt [0 ..< length (dataIndexers m)] @
                    map ValueIndexerAt [0 ..< length (valueIndexers m)])), True))"
    by (intro exI [of _ "\<lparr> dataIndexers = ds, valueIndexers = vs \<rparr>"] conjI allI impI
        start_all_resolve) simp_all
next
  assume "\<not> btisDefined config btis"
  then obtain cc where "cc \<in> set (tvl_chains config)" "chainPositions config cc \<noteq> []"
    "lookupBlockTimestampIndexer btis (cfg_chain cc) = None"
    by (blast dest: not_btisDefined)
  then have "createIndexers config gp dpi btis = Inl (AssertionError assertMessage)"
    by (rule createIndexers_fails)
  then show "initPremintedModule config gp dpi btis = Inl (AssertionError assertMessage)"
    by (simp add: initPremintedModule_def)
qed

theorem init_undefined_module_or_failure_witness:
  "\<not> noPremintedMatch sampleConfig \<and> btisDefined sampleConfig sampleIndexers \<and>
   initPremintedModule sampleConfig samplePrices (DescendantIndexer 0) sampleIndexers =
     Inr (Some \<lparr> dataIndexers = [sampleData, sampleData2],
                  valueIndexers = [sampleValue, sampleValue2] \<rparr>) \<and>
   start \<lparr> dataIndexers = [sampleData, sampleData2], valueIndexers = [sampleValue, sampleValue2] \<rparr>
     (\<lambda>i. True) =
   ([StartBegins (DataIndexerAt 0), StartCompletes (DataIndexerAt 0),
     StartBegins (DataIndexerAt 1), StartCompletes (DataIndexerAt 1),
     StartBegins (ValueIndexerAt 0), StartCompletes (ValueIndexerAt 0),
     StartBegins (ValueIndexerAt 1), StartCompletes (ValueIndexerAt 1)], True) \<and>
   \<not> btisDefined sampleConfig None \<and>
   initPremintedModule sampleConfig samplePrices (DescendantIndexer 0) None =
     Inl (AssertionError assertMessage)"
  using init_undefined_module_or_failure [of sampleConfig samplePrices "DescendantIndexer 0"
      sampleIndexers]
    init_undefined_module_or_failure [of sampleConfig samplePrices "DescendantIndexer 0" None]
    sample_btisDefined sample_not_btisDefined sample_match
  by (simp add: sample_init sample_start)

text \<open>
  C5, as stated, fails: on the small configuration without any Block-Timestamp Indexer
  the entry \<open>sampleEntry\<close> is a preminted entry on an enabled chain, and
  \<^verbatim>\<open>createIndexers\<close> ends in the assertion error: no indexer is returned for it.
\<close>

theorem no_indexer_without_block_timestamp_indexer:
  "sampleEntry \<in> set (tvl_amounts sampleConfig) \<and> amt_type sampleEntry = Preminted \<and>
   sampleChain \<in> set (tvl_chains sampleConfig) \<and> cfg_config sampleChain \<noteq> None \<and>
   cfg_chain sampleChain = amt_chain sampleEntry \<and>
   createIndexers sampleConfig samplePrices (DescendantIndexer 0) None =
     Inl (AssertionError assertMessage)"
proof -
  have "sampleEntry \<in> set (tvl_amounts sampleConfig)"
    and "sampleChain \<in> set (tvl_chains sampleConfig)"
    by (simp_all add: sampleConfig_def)
  moreover have "amt_type sampleEntry = Preminted" and "cfg_config sampleChain \<noteq> None"
    and "cfg_chain sampleChain = amt_chain sampleEntry"
    by (simp_all add: sampleEntry_def sampleChain_def)
  ultimately show ?thesis using sample_createIndexers_fails by simp
qed

text \<open>
  C5, amended. When every enabled chain that has preminted entries has a Block-Timestamp
  Indexer, \<^verbatim>\<open>createIndexers\<close> returns the two arrays, and they run in step with the
  preminted entries of the enabled chain entries, in the order the loops visit them: the
  Data Indexer and the Value Indexer at a place are those of the entry at that place, both
  have the entry's start timestamp as minimum height, and the Value Indexer has the
  entry's optional end timestamp as maximum height. When no chain name and no entry is
  repeated in the configuration, each preminted entry on an enabled chain therefore has
  exactly one Data Indexer and exactly one Value Indexer.
\<close>

theorem one_data_and_one_value_indexer_per_position:
  assumes "btisDefined config btis"
  shows "\<exists>ds vs. createIndexers config gp dpi btis = Inr (ds, vs) \<and>
           map configuration ds = positions config (tvl_chains config) \<and>
           map amountConfigs vs = map (\<lambda>a. [a]) (positions config (tvl_chains config)) \<and>
           map pi_minHeight ds = map sinceTimestamp (positions config (tvl_chains config)) \<and>
           map vi_minHeight vs = map sinceTimestamp (positions config (tvl_chains config)) \<and>
           map vi_maxHeight vs = map untilTimestamp (positions config (tvl_chains config)) \<and>
           (distinct (map cfg_chain (tvl_chains config)) \<and> distinct (tvl_amounts config) \<longrightarrow>
              (\<forall>a \<in> set (tvl_amounts config).
                 amt_type a = Preminted \<and>
                 (\<exists>cc \<in> set (tvl_chains config). cfg_config cc \<noteq> None \<and> cfg_chain cc = amt_chain a) \<longrightarrow>
                 length (filter (\<lambda>d. configuration d = a) ds) = 1 \<and>
                 length (filter (\<lambda>v. amountConfigs v = [a]) vs) = 1))"
proof -
  let ?ps = "positions config (tvl_chains config)"
  from createIndexers_succeeds [OF assms] obtain ds vs where
    c: "createIndexers config gp dpi btis = Inr (ds, vs)" by blast
  have conf: "map configuration ds = ?ps" by (rule createIndexers_configurations [OF c])
  note f = builtPairs_fields [OF createIndexers_builtPair [OF c], unfolded conf]
  have one: "length (filter (\<lambda>d. configuration d = a) ds) = 1 \<and>
             length (filter (\<lambda>v. amountConfigs v = [a]) vs) = 1"
    if d: "distinct (map cfg_chain (tvl_chains config)) \<and> distinct (tvl_amounts config)"
      and a: "a \<in> set ?ps" for a
  proof -
    from d have dist: "distinct ?ps" by (simp add: positions_distinct)
    have "length (filter (\<lambda>d. configuration d = a) ds) =
            length (filter (\<lambda>x. x = a) (map configuration ds))"
      by (simp add: filter_map comp_def)
    also have "\<dots> = 1" unfolding conf by (rule distinct_filter_one [OF dist a])
    finally have 1: "length (filter (\<lambda>d. configuration d = a) ds) = 1" .
    have "length (filter (\<lambda>v. amountConfigs v = [a]) vs) =
            length (filter (\<lambda>l. l = [a]) (map amountConfigs vs))"
      by (simp add: filter_map comp_def)
    also have "\<dots> = length (filter (\<lambda>x. x = a) ?ps)"
      unfolding f(1) by (simp add: filter_map comp_def)
    also have "\<dots> = 1" by (rule distinct_filter_one [OF dist a])
    finally show ?thesis using 1 by simp
  qed
  show ?thesis
    apply (intro exI [of _ ds] exI [of _ vs] conjI impI ballI)
            apply (rule c)
           apply (rule conf)
          apply (rule f(1))
         apply (rule f(2))
        apply (rule f(3))
       apply (rule f(4))
     apply (rule one [THEN conjunct1], assumption, simp add: positions_mem)
    apply (rule one [THEN conjunct2], assumption, simp add: positions_mem)
    done
qed

theorem one_data_and_one_value_indexer_per_position_witness:
  "btisDefined sampleConfig sampleIndexers \<and>
   createIndexers sampleConfig samplePrices (DescendantIndexer 0) sampleIndexers =
     Inr ([sampleData, sampleData2], [sampleValue, sampleValue2]) \<and>
   positions sampleConfig (tvl_chains sampleConfig) = [sampleEntry, sampleEntry2] \<and>
   map configuration [sampleData, sampleData2] = [sampleEntry, sampleEntry2] \<and>
   map amountConfigs [sampleValue, sampleValue2] = [[sampleEntry], [sampleEntry2]] \<and>
   map pi_minHeight [sampleData, sampleData2] = [100, 120] \<and>
   map vi_minHeight [sampleValue, sampleValue2] = [100, 120] \<and>
   map vi_maxHeight [sampleValue, sampleValue2] = [Some 175, None] \<and>
   distinct (map cfg_chain (tvl_chains sampleConfig)) \<and> distinct (tvl_amounts sampleConfig) \<and>
   length (filter (\<lambda>d. configuration d = sampleEntry) [sampleData, sampleData2]) = 1 \<and>
   length (filter (\<lambda>v. amountConfigs v = [sampleEntry]) [sampleValue, sampleValue2]) = 1"
proof -
  have p: "positions sampleConfig (tvl_chains sampleConfig) = [sampleEntry, sampleEntry2]"
    by (simp add: positions_def chainPositions_def premintedTokens_def sampleConfig_def
        sampleChain_def sampleEntry_def sampleEntry2_def)
  have d: "distinct (map cfg_chain (tvl_chains sampleConfig)) \<and> distinct (tvl_amounts sampleConfig)"
    by (simp add: sampleConfig_def sampleChain_def sampleEntry_def sampleEntry2_def)
  have s: "sampleEntry \<in> set (tvl_amounts sampleConfig) \<and> amt_type sampleEntry = Preminted \<and>
      (\<exists>cc \<in> set (tvl_chains sampleConfig). cfg_config cc \<noteq> None \<and> cfg_chain cc = amt_chain sampleEntry)"
    by (simp add: sampleConfig_def sampleChain_def sampleEntry_def)
  from one_data_and_one_value_indexer_per_position [OF sample_btisDefined,
      of samplePrices "DescendantIndexer 0"]
  obtain ds vs where
    c: "createIndexers sampleConfig samplePrices (DescendantIndexer 0) sampleIndexers = Inr (ds, vs)"
    and m: "map configuration ds = positions sampleConfig (tvl_chains sampleConfig)"
      "map amountConfigs vs = map (\<lambda>a. [a]) (positions sampleConfig (tvl_chains sampleConfig))"
      "map pi_minHeight ds = map sinceTimestamp (positions sampleConfig (tvl_chains sampleConfig))"
      "map vi_minHeight vs = map sinceTimestamp (positions sampleConfig (tvl_chains sampleConfig))"
      "map vi_maxHeight vs = map untilTimestamp (positions sampleConfig (tvl_chains sampleConfig))"
    and one: "distinct (map cfg_chain (tvl_chains sampleConfig)) \<and> distinct (tvl_amounts sampleConfig) \<longrightarrow>
      (\<forall>a \<in> set (tvl_amounts sampleConfig).
         amt_type a = Preminted \<and>
         (\<exists>cc \<in> set (tvl_chains sampleConfig). cfg_config cc \<noteq> None \<and> cfg_chain cc = amt_chain a) \<longrightarrow>
         length (filter (\<lambda>d. configuration d = a) ds) = 1 \<and>
         length (filter (\<lambda>v. amountConfigs v = [a]) vs) = 1)"
    by blast
  from c have dv: "ds = [sampleData, sampleData2]" "vs = [sampleValue, sampleValue2]"
    by (simp_all add: sample_createIndexers)
  from one d s have
    "length (filter (\<lambda>d. configuration d = sampleEntry) ds) = 1 \<and>
     length (filter (\<lambda>v. amountConfigs v = [sampleEntry]) vs) = 1"
    by blast
  moreover have "map sinceTimestamp [sampleEntry, sampleEntry2] = [100, 120]"
    and "map untilTimestamp [sampleEntry, sampleEntry2] = [Some 175, None]"
    by (simp_all add: sampleEntry_def sampleEntry2_def)
  ultimately show ?thesis
    using m d sample_btisDefined sample_createIndexers unfolding dv p by simp
qed

section \<open>Progress of the indexers\<close>

text \<open>
  C3. Along every run of the graph, whatever the order of the cycles and whatever the
  environment answers, the cursor of each of the four indexers (Block-Timestamp, Data,
  Descendant/Price, Value) at a later time is at least its cursor at an earlier time.
\<close>

theorem cursors_never_regress:
  "bt_cursor (bts (run d v evs1 s)) \<le> bt_cursor (bts (run d v (evs1 @ evs2) s)) \<and>
   d_cursor (dat (run d v evs1 s)) \<le> d_cursor (dat (run d v (evs1 @ evs2) s)) \<and>
   priceCursor (run d v evs1 s) \<le> priceCursor (run d v (evs1 @ evs2) s) \<and>
   v_cursor (val (run d v evs1 s)) \<le> v_cursor (val (run d v (evs1 @ evs2) s))"
  unfolding run_append by (rule run_cursors)

text \<open>
  C2. For a Data Indexer whose configuration has an end timestamp (or that was given a
  maximum height): once its cursor has reached the end, a cycle processes nothing and
  ends cleanly, whatever the parent's cursor, the batch width and the Amount Service; and
  along every run of the graph, in which the parents may advance, its cursor and its
  records stay as they are. A cursor that starts at or before the end never passes it.
\<close>

theorem data_indexer_stops_at_end_timestamp:
  assumes "untilTimestamp (configuration d) = Some e \<or> pi_maxHeight d = Some e"
  shows "(e \<le> d_cursor s0 \<longrightarrow> dataCycle d resolve width parentCursor s0 = (s0, CycleDone)) \<and>
         (e \<le> d_cursor (dat s) \<longrightarrow> dat (run d v evs s) = dat s) \<and>
         (d_cursor (dat s) \<le> e \<longrightarrow> d_cursor (dat (run d v evs s)) \<le> e)"
  using dataCycle_at_end [OF assms] run_data_at_end [OF assms] run_data_below_end [OF assms]
  by blast

theorem data_indexer_stops_at_end_timestamp_witness:
  "untilTimestamp (configuration sampleData) = Some 175 \<and>
   175 \<le> d_cursor (dat sampleAtEnd) \<and>
   bt_cursor (bts (run sampleData sampleValue
      [BlockTimestampCycle (\<lambda>t. Some 7) 300, DataCycle (\<lambda>b. Some 1000) 10] sampleAtEnd)) = 201 \<and>
   dat (run sampleData sampleValue
      [BlockTimestampCycle (\<lambda>t. Some 7) 300, DataCycle (\<lambda>b. Some 1000) 10] sampleAtEnd) =
     dat sampleAtEnd \<and>
   dataCycle sampleData (\<lambda>t. Amount 1000) 10 200 (dat sampleAtEnd) = (dat sampleAtEnd, CycleDone) \<and>
   d_cursor (dat sampleGraph) \<le> 175 \<and>
   d_cursor (dat (run sampleData sampleValue [DataCycle (\<lambda>b. Some 1000) 10] sampleGraph)) \<le> 175"
proof -
  have u: "untilTimestamp (configuration sampleData) = Some 175 \<or> pi_maxHeight sampleData = Some 175"
    by (simp add: sampleData_def sampleEntry_def)
  have b: "bt_cursor (bts (run sampleData sampleValue
      [BlockTimestampCycle (\<lambda>t. Some 7) 300, DataCycle (\<lambda>b. Some 1000) 10] sampleAtEnd)) = 201"
    by (simp add: sampleAtEnd_def blockTimestampStep_def)
  have c: "175 \<le> d_cursor (dat sampleAtEnd)" "d_cursor (dat sampleGraph) \<le> 175"
    by (simp_all add: sampleAtEnd_def sampleGraph_def sampleData_def)
  from data_indexer_stops_at_end_timestamp [OF u, of "dat sampleAtEnd" "\<lambda>t. Amount 1000" 10 200
      sampleAtEnd sampleValue "[BlockTimestampCycle (\<lambda>t. Some 7) 300, DataCycle (\<lambda>b. Some 1000) 10]"]
    data_indexer_stops_at_end_timestamp [OF u, of "dat sampleAtEnd" "\<lambda>t. Amount 1000" 10 200
      sampleGraph sampleValue "[DataCycle (\<lambda>b. Some 1000) 10]"]
    b c
  show ?thesis by (simp add: sampleData_def sampleEntry_def)
qed



section \<open>Termination of the retry policy\<close>

text \<open>
  C8. Against a provider that answers every call with a network-level failure, a call
  through the client ends: it makes exactly as many provider calls as the configured
  attempt bound, waits a finite total time between them, and returns the error
  \<^verbatim>\<open>ProviderUnavailable\<close>.
\<close>

theorem retry_ends_with_provider_unavailable:
  assumes "\<forall>k. provider k = NetworkFailure"
  shows "call policy provider =
           (Inl ProviderUnavailable, maxAttempts policy,
            baseDelay policy * (2 ^ (maxAttempts policy - 1) - 1))"
  using callWithRetry_always_failing [OF assms, of "maxAttempts policy" 0 "baseDelay policy"]
  by (simp add: call_def)

theorem retry_ends_with_provider_unavailable_witness:
  "(\<forall>k. (\<lambda>k. NetworkFailure :: int callOutcome) k = NetworkFailure) \<and>
   call samplePolicy (\<lambda>k. NetworkFailure :: int callOutcome) = (Inl ProviderUnavailable, 3, 300)"
  using retry_ends_with_provider_unavailable [of "\<lambda>k. NetworkFailure :: int callOutcome" samplePolicy]
  by (simp add: samplePolicy_def)

end
